theory Spec2Isabelle
  imports Main
begin

section \<open>Data model\<close>

text \<open>
  The Python exceptions the arithmetic core can raise. \<open>ValueError\<close> is raised by the
  modular-inverse routines, \<open>TypeError\<close> by unpacking or indexing \<open>None\<close>, and
  \<open>RecursionError\<close> by the interpreter when the recursive \<open>extended_gcd\<close> nests deeper than
  the recursion limit allows.
\<close>

datatype error = ValueError | TypeError | RecursionError

text \<open>
  A point is \<open>None\<close> (the point at infinity) or a tuple \<open>(x, y)\<close> of Python integers.
\<close>

type_synonym point = "(int \<times> int) option"

text \<open>
  Every variant keeps its curve as module constants \<open>p, a, b, G, q\<close> (in \<open>main.py\<close>:
  \<open>PRIME, COEFF_A, COEFF_B, START_POINT, ORDER\<close>; in \<open>main_v6.py\<close>: \<open>p, a, b, (xG, yG), n\<close>).
  The functions below take them as a record, and the constants of each variant are
  values of that record. Python's \<open>%\<close> and \<open>//\<close> by a positive modulus are \<open>mod\<close>
  and \<open>div\<close> on \<open>int\<close>.
\<close>

record curve =
  p :: int
  a :: int
  b :: int
  G :: "int \<times> int"
  q :: int

section \<open>main.py\<close>

definition main_params :: curve where
  "main_params = \<lparr>
     p = 0xFFFFFFFFFFFFFFFFFFFFFFFFFFFFFFFFFFFFFFFFFFFFFFFFFFFFFFFFFFFFFD97,
     a = 0xFFFFFFFFFFFFFFFFFFFFFFFFFFFFFFFFFFFFFFFFFFFFFFFFFFFFFFFFFFFFFD94,
     b = 0xA6,
     G = (0x1, 0x8D91E471E0989CDA27DF505A453F2B7635294F2DDF23E3B122ACC99C9E9F1E14),
     q = 0xFFFFFFFFFFFFFFFFFFFFFFFFFFFFFFFF6C611070995AD10045841B09B761B893 \<rparr>"

text \<open>The \<open>while low > 1\<close> loop of \<open>inverse_modulo\<close>, on the four loop variables.\<close>

function inverse_modulo_loop :: "int \<Rightarrow> int \<Rightarrow> int \<Rightarrow> int \<Rightarrow> int" where
  "inverse_modulo_loop a' b' low high =
     (if low > 1
      then (let quotient = high div low
            in inverse_modulo_loop (b' - a' * quotient) a' (high - low * quotient) low)
      else a')"
  by pat_completeness auto
termination
proof (relation "measure (\<lambda>(a', b', low, high). nat low)")
  show "wf (measure (\<lambda>(a', b', low, high). nat low))" by simp
next
  fix a' b' low high quotient :: int
  assume "1 < low" and "quotient = high div low"
  then have "high - low * quotient = high mod low"
    by (simp add: minus_mult_div_eq_mod)
  moreover have "high mod low < low" using \<open>1 < low\<close> by simp
  moreover have "0 \<le> high mod low" using \<open>1 < low\<close> by simp
  ultimately show "((b' - a' * quotient, a', high - low * quotient, low), (a', b', low, high))
      \<in> measure (\<lambda>(a', b', low, high). nat low)"
    using \<open>1 < low\<close> by simp
qed

declare inverse_modulo_loop.simps [simp del]

definition inverse_modulo :: "int \<Rightarrow> int \<Rightarrow> error + int" where
  "inverse_modulo v modulus =
     (if v = 0 then Inl ValueError
      else Inr (inverse_modulo_loop 1 0 (v mod modulus) modulus mod modulus))"

definition curve_point_sum :: "curve \<Rightarrow> point \<Rightarrow> point \<Rightarrow> error + point" where
  "curve_point_sum c p1 p2 =
     (case p1 of None \<Rightarrow> Inr p2
      | Some (x1, y1) \<Rightarrow>
     (case p2 of None \<Rightarrow> Inr p1
      | Some (x2, y2) \<Rightarrow>
        if x1 = x2 \<and> (y1 + y2) mod p c = 0 then Inr None
        else
          (case (if p1 = p2 then inverse_modulo (2 * y1) (p c)
                 else inverse_modulo (x2 - x1) (p c)) of
             Inl e \<Rightarrow> Inl e
           | Inr inv_v \<Rightarrow>
               let gradient = (if p1 = p2 then (3 * x1 * x1 + a c) * inv_v mod p c
                               else (y2 - y1) * inv_v mod p c);
                   x_new = (gradient * gradient - x1 - x2) mod p c;
                   y_new = (gradient * (x1 - x_new) - y1) mod p c
               in Inr (Some (x_new, y_new)))))"

text \<open>
  The loop of \<open>multiply_point\<close> on \<open>(factor, current, temp_point)\<close>; an exception of
  \<open>curve_point_sum\<close> leaves the loop. \<open>factor & 1\<close> is \<open>factor mod 2\<close> and
  \<open>factor >>= 1\<close> is \<open>factor div 2\<close> on a positive integer.
\<close>

function multiply_point_loop :: "curve \<Rightarrow> int \<Rightarrow> point \<Rightarrow> point \<Rightarrow> error + point" where
  "multiply_point_loop c factor current temp_point =
     (if factor > 0 then
        (case (if factor mod 2 = 1 then curve_point_sum c current temp_point
               else Inr current) of
           Inl e \<Rightarrow> Inl e
         | Inr current' \<Rightarrow>
             (case curve_point_sum c temp_point temp_point of
                Inl e \<Rightarrow> Inl e
              | Inr temp' \<Rightarrow> multiply_point_loop c (factor div 2) current' temp'))
      else Inr current)"
  by pat_completeness auto
termination
  by (relation "measure (\<lambda>(c, factor, current, temp_point). nat factor)") auto

declare multiply_point_loop.simps [simp del]

definition multiply_point :: "curve \<Rightarrow> int \<Rightarrow> point \<Rightarrow> error + point" where
  "multiply_point c factor point = multiply_point_loop c factor None point"


text \<open>
  The \<open>while True\<close> loop of \<open>generate_signature\<close>. The random source is the stream
  \<open>rnd\<close> of the values that the successive calls \<open>secrets.randbelow(ORDER - 1)\<close> return;
  \<open>i\<close> counts the calls made so far. The result \<open>None\<close> is a loop that never ends.
\<close>

partial_function (option) generate_signature_loop ::
  "curve \<Rightarrow> (nat \<Rightarrow> int) \<Rightarrow> int \<Rightarrow> int \<Rightarrow> nat \<Rightarrow> (error + int \<times> int) option" where
  "generate_signature_loop c rnd secret_key hash_val i =
     (let temp_k = rnd i + 1
      in case multiply_point c temp_k (Some (G c)) of
           Inl e \<Rightarrow> Some (Inl e)
         | Inr None \<Rightarrow> generate_signature_loop c rnd secret_key hash_val (Suc i)
         | Inr (Some (x, y)) \<Rightarrow>
             (let r_val = x mod q c
              in if r_val = 0 then generate_signature_loop c rnd secret_key hash_val (Suc i)
                 else (let s_val = (r_val * secret_key + temp_k * hash_val) mod q c
                       in if s_val \<noteq> 0 then Some (Inr (r_val, s_val))
                          else generate_signature_loop c rnd secret_key hash_val (Suc i))))"

text \<open>
  \<open>generate_signature\<close>; \<open>digest\<close> is the integer that \<open>compute_gost_hash(data)\<close> returns.
\<close>

definition generate_signature ::
  "curve \<Rightarrow> (nat \<Rightarrow> int) \<Rightarrow> int \<Rightarrow> int \<Rightarrow> (error + int \<times> int) option" where
  "generate_signature c rnd secret_key digest =
     (let hash_val = digest mod q c;
          hash_val = (if hash_val = 0 then 1 else hash_val)
      in generate_signature_loop c rnd secret_key hash_val 0)"

definition check_signature :: "curve \<Rightarrow> int \<Rightarrow> int \<times> int \<Rightarrow> point \<Rightarrow> error + bool" where
  "check_signature c digest signature open_key =
     (case signature of (r_val, s_val) \<Rightarrow>
        if \<not> (1 \<le> r_val \<and> r_val < q c \<and> 1 \<le> s_val \<and> s_val < q c) then Inr False
        else
          (let hash_val = digest mod q c;
               hash_val = (if hash_val = 0 then 1 else hash_val)
           in case inverse_modulo hash_val (q c) of
                Inl e \<Rightarrow> Inl e
              | Inr inverse_hash \<Rightarrow>
                  (let u1 = (s_val * inverse_hash) mod q c;
                       u2 = (- r_val * inverse_hash) mod q c
                   in case multiply_point c u1 (Some (G c)) of
                        Inl e \<Rightarrow> Inl e
                      | Inr P1 \<Rightarrow>
                          (case multiply_point c u2 open_key of
                             Inl e \<Rightarrow> Inl e
                           | Inr P2 \<Rightarrow>
                               (case curve_point_sum c P1 P2 of
                                  Inl e \<Rightarrow> Inl e
                                | Inr None \<Rightarrow> Inr False
                                | Inr (Some (x, y)) \<Rightarrow> Inr (x mod q c = r_val))))))"

section \<open>main_v6.py\<close>

definition params_v6 :: curve where
  "params_v6 = \<lparr>
     p = 57896044618658097711785492504343953926418782139537452191302581570759080747169,
     a = 7,
     b = 43308876546767276905765900574683423135711535271985780914745867236231519206471,
     G = (2, 57896044618658097711785492504343953926418782139537452191302581570759080747168),
     q = 57896044618658097711785492504343953927082934583725450622380973592137631069619 \<rparr>"

text \<open>
  \<open>extended_gcd\<close> calls itself once for every step of Euclid's algorithm, each call in a
  frame of its own, and the interpreter raises \<open>RecursionError\<close> when a call would exceed
  its recursion limit (\<open>1000\<close> unless changed, and no file changes it). \<open>frames\<close> is the
  number of nested calls of \<open>extended_gcd\<close> that the limit still allows where a file calls
  its modular inverse. What is in use there depends on the caller, so the number is a
  parameter of the model, the same at every call of the modular inverse in one run.
\<close>

fun extended_gcd :: "nat \<Rightarrow> int \<Rightarrow> int \<Rightarrow> error + int \<times> int \<times> int" where
  "extended_gcd 0 a' b' = Inl RecursionError"
| "extended_gcd (Suc frames) a' b' =
     (if a' = 0 then Inr (b', 0, 1)
      else (case extended_gcd frames (b' mod a') a' of
              Inl e \<Rightarrow> Inl e
            | Inr (g, y, x) \<Rightarrow> Inr (g, x - (b' div a') * y, y)))"

text \<open>\<open>inverse_mod\<close> returns \<open>None\<close> when the gcd is not \<open>1\<close>.\<close>

definition inverse_mod :: "nat \<Rightarrow> int \<Rightarrow> int \<Rightarrow> error + int option" where
  "inverse_mod frames a' m =
     (case extended_gcd frames a' m of
        Inl e \<Rightarrow> Inl e
      | Inr (g, x, y) \<Rightarrow> Inr (if g \<noteq> 1 then None else Some (x mod m)))"

definition double_point :: "curve \<Rightarrow> nat \<Rightarrow> point \<Rightarrow> error + point" where
  "double_point c frames P =
     (case P of
        None \<Rightarrow> Inl TypeError
      | Some (x0, y0) \<Rightarrow>
          (let x = x0 mod p c; y = y0 mod p c
           in if y = 0 then Inr None
              else (case inverse_mod frames (2 * y) (p c) of
                      Inl e \<Rightarrow> Inl e
                    | Inr None \<Rightarrow> Inr None
                    | Inr (Some inv_v) \<Rightarrow>
                        (let lam = (3 * x * x + a c) * inv_v mod p c;
                             x_r = (lam * lam - 2 * x) mod p c;
                             y_r = (lam * (x - x_r) - y) mod p c
                         in Inr (Some (x_r, y_r))))))"

definition add_points :: "curve \<Rightarrow> nat \<Rightarrow> point \<Rightarrow> point \<Rightarrow> error + point" where
  "add_points c frames P Q =
     (case P of None \<Rightarrow> Inr Q
      | Some (x_p0, y_p0) \<Rightarrow>
     (case Q of None \<Rightarrow> Inr P
      | Some (x_q0, y_q0) \<Rightarrow>
          (let x_p = x_p0 mod p c; y_p = y_p0 mod p c;
               x_q = x_q0 mod p c; y_q = y_q0 mod p c
           in if x_p = x_q \<and> y_p \<noteq> y_q then Inr None
              else if x_p = x_q \<and> y_p = y_q then double_point c frames P
              else (case inverse_mod frames (x_q - x_p) (p c) of
                      Inl e \<Rightarrow> Inl e
                    | Inr None \<Rightarrow> Inr None
                    | Inr (Some inv_v) \<Rightarrow>
                        (let lam = (y_q - y_p) * inv_v mod p c;
                             x_r = (lam * lam - x_p - x_q) mod p c;
                             y_r = (lam * (x_p - x_r) - y_p) mod p c
                         in Inr (Some (x_r, y_r)))))))"

text \<open>
  The loop \<open>while k:\<close> of \<open>multiply_point\<close> in \<open>main_v6.py\<close> on \<open>(k, result, addend)\<close>.
  It runs while \<open>k\<close> is not zero, and \<open>k //= 2\<close> never takes a negative \<open>k\<close> to zero:
  \<open>None\<close> is the loop that never ends.
\<close>

partial_function (option) multiply_point_v6_loop ::
  "curve \<Rightarrow> nat \<Rightarrow> int \<Rightarrow> point \<Rightarrow> point \<Rightarrow> (error + point) option" where
  "multiply_point_v6_loop c frames k result addend =
     (if k \<noteq> 0 then
        (case (if k mod 2 = 1 then add_points c frames result addend else Inr result) of
           Inl e \<Rightarrow> Some (Inl e)
         | Inr result' \<Rightarrow>
             (case double_point c frames addend of
                Inl e \<Rightarrow> Some (Inl e)
              | Inr addend' \<Rightarrow> multiply_point_v6_loop c frames (k div 2) result' addend'))
      else Some (Inr result))"

definition multiply_point_v6 :: "curve \<Rightarrow> nat \<Rightarrow> point \<Rightarrow> int \<Rightarrow> (error + point) option" where
  "multiply_point_v6 c frames P k = multiply_point_v6_loop c frames k None P"



text \<open>
  \<open>sign_file\<close> of \<open>main_v6.py\<close>; \<open>digest\<close> is the integer read from the hash bytes, and
  \<open>hash_file\<close> returns \<open>digest % n\<close>. \<open>R[0]\<close> on \<open>R = None\<close> raises \<open>TypeError\<close>.
\<close>

partial_function (option) sign_file_v6_loop ::
  "curve \<Rightarrow> nat \<Rightarrow> (nat \<Rightarrow> int) \<Rightarrow> int \<Rightarrow> int \<Rightarrow> nat \<Rightarrow> (error + int \<times> int) option" where
  "sign_file_v6_loop c frames rnd d e i =
     (let k = rnd i
      in case multiply_point_v6 c frames (Some (G c)) k of
           None \<Rightarrow> None
         | Some (Inl err) \<Rightarrow> Some (Inl err)
         | Some (Inr None) \<Rightarrow> Some (Inl TypeError)
         | Some (Inr (Some (x, y))) \<Rightarrow>
             (let r = x mod q c
              in if r = 0 then sign_file_v6_loop c frames rnd d e (Suc i)
                 else (let s = (d * r + k * e) mod q c
                       in if s = 0 then sign_file_v6_loop c frames rnd d e (Suc i)
                          else Some (Inr (r, s)))))"

definition sign_file_v6 ::
  "curve \<Rightarrow> nat \<Rightarrow> (nat \<Rightarrow> int) \<Rightarrow> int \<Rightarrow> int \<Rightarrow> (error + int \<times> int) option" where
  "sign_file_v6 c frames rnd digest d = sign_file_v6_loop c frames rnd d (digest mod q c) 0"

definition verify_signature ::
  "curve \<Rightarrow> nat \<Rightarrow> int \<Rightarrow> point \<Rightarrow> int \<Rightarrow> int \<Rightarrow> (error + bool) option" where
  "verify_signature c frames digest Q r s =
     (let e = digest mod q c
      in case inverse_mod frames e (q c) of
           Inl err \<Rightarrow> Some (Inl err)
         | Inr None \<Rightarrow> Some (Inr False)
         | Inr (Some v) \<Rightarrow>
             (let z1 = (s * v) mod q c;
                  z2 = (- r * v) mod q c
              in case multiply_point_v6 c frames (Some (G c)) z1 of
                   None \<Rightarrow> None
                 | Some (Inl err) \<Rightarrow> Some (Inl err)
                 | Some (Inr P1) \<Rightarrow>
                     (case multiply_point_v6 c frames Q z2 of
                        None \<Rightarrow> None
                      | Some (Inl err) \<Rightarrow> Some (Inl err)
                      | Some (Inr P2) \<Rightarrow>
                          (case add_points c frames P1 P2 of
                             Inl err \<Rightarrow> Some (Inl err)
                           | Inr None \<Rightarrow> Some (Inr False)
                           | Inr (Some (x, y)) \<Rightarrow> Some (Inr (x mod q c = r))))))"

section \<open>main1.py and main_v5.py\<close>

text \<open>
  \<open>main1.py\<close> and \<open>main_v5.py\<close> have the same \<open>mod_inverse\<close>, \<open>point_add\<close> and
  \<open>point_mult\<close> and differ in their constants. The function \<open>extended_gcd\<close> nested in
  \<open>mod_inverse\<close> computes what \<open>extended_gcd\<close> of \<open>main_v6.py\<close> computes (its result
  \<open>(gcd, y1 - (b // a) * x1, x1)\<close> is the same triple, by the same recursion), so the
  model shares it, with its \<open>frames\<close>.
\<close>

definition params_main1 :: curve where
  "params_main1 = \<lparr>
     p = 0xFFFFFFFF00000001000000000000000000000000FFFFFFFFFFFFFFFFFFFFFFFF,
     a = 0xFFFFFFFF00000001000000000000000000000000FFFFFFFFFFFFFFFFFFFFFFFC,
     b = 0x5AC635D8AA3A93E7B3EBBD55769886BC651D06B0CC53B0F63BCE3C3E27D2604B,
     G = (0x6B17D1F2E12C4247F8BCE6E563A440F277037D812DEB33A0F4A13945D898C296,
          0x4FE342E2FE1A7F9B8EE7EB4A7C0F9E162BCE33576B315ECECBB6406837BF51F5),
     q = 0xFFFFFFFF00000000FFFFFFFFFFFFFFFFBCE6FAADA7179E84F3B9CAC2FC632551 \<rparr>"

definition params_v5 :: curve where
  "params_v5 = \<lparr>
     p = 0xFFFFFFFFFFFFFFFFFFFFFFFFFFFFFFFFFFFFFFFFFFFFFFFFFFFFFFFFFFFFFD97,
     a = 0xFFFFFFFFFFFFFFFFFFFFFFFFFFFFFFFFFFFFFFFFFFFFFFFFFFFFFFFFFFFFFD94,
     b = 0xA6,
     G = (0x1, 0x8D91E471E0980C1F5D1F4D8C5B6A8B6F7E7E3D9E0B6E6B6E7E3D9E0B6E6B6E7),
     q = 0xFFFFFFFFFFFFFFFFFFFFFFFFFFFFFFFF6C611070995AD10045841B09B761B893 \<rparr>"

definition mod_inverse :: "nat \<Rightarrow> int \<Rightarrow> int \<Rightarrow> error + int" where
  "mod_inverse frames a' m =
     (case extended_gcd frames a' m of
        Inl e \<Rightarrow> Inl e
      | Inr (gcd', x, _) \<Rightarrow>
          if gcd' \<noteq> 1 then Inl ValueError else Inr ((x mod m + m) mod m))"

definition point_add :: "curve \<Rightarrow> nat \<Rightarrow> point \<Rightarrow> point \<Rightarrow> error + point" where
  "point_add c frames P Q =
     (case P of None \<Rightarrow> Inr Q
      | Some (x1, y1) \<Rightarrow>
     (case Q of None \<Rightarrow> Inr P
      | Some (x2, y2) \<Rightarrow>
        if x1 = x2 \<and> (y1 + y2) mod p c = 0 then Inr None
        else if P = Q \<and> y1 = 0 then Inr None
        else
          (case (if P = Q then mod_inverse frames (2 * y1) (p c)
                 else mod_inverse frames ((x2 - x1) mod p c) (p c)) of
             Inl e \<Rightarrow> Inl e
           | Inr inv_v \<Rightarrow>
               let lam = (if P = Q then ((3 * x1 * x1 + a c) * inv_v) mod p c
                          else ((y2 - y1) * inv_v) mod p c);
                   x3 = (lam * lam - x1 - x2) mod p c;
                   y3 = (lam * (x1 - x3) - y1) mod p c
               in Inr (Some (x3, y3)))))"

function point_mult_loop ::
  "curve \<Rightarrow> nat \<Rightarrow> int \<Rightarrow> point \<Rightarrow> point \<Rightarrow> error + point" where
  "point_mult_loop c frames k result temp =
     (if k > 0 then
        (case (if k mod 2 = 1 then point_add c frames result temp else Inr result) of
           Inl e \<Rightarrow> Inl e
         | Inr result' \<Rightarrow>
             (case point_add c frames temp temp of
                Inl e \<Rightarrow> Inl e
              | Inr temp' \<Rightarrow> point_mult_loop c frames (k div 2) result' temp'))
      else Inr result)"
  by pat_completeness auto
termination
  by (relation "measure (\<lambda>(c, frames, k, result, temp). nat k)") auto

declare point_mult_loop.simps [simp del]

definition point_mult :: "curve \<Rightarrow> nat \<Rightarrow> int \<Rightarrow> point \<Rightarrow> error + point" where
  "point_mult c frames k P = point_mult_loop c frames (k mod q c) None P"

definition is_on_curve :: "curve \<Rightarrow> int \<Rightarrow> int \<Rightarrow> bool" where
  "is_on_curve c x y =
     (let left = (y * y) mod p c;
          right = (x * x * x + a c * x + b c) mod p c
      in left = right)"

text \<open>
  The signing loop of \<open>sign_file\<close> in \<open>main_v5.py\<close>, for the private key \<open>d\<close> read from
  the key file and \<open>h\<close>, the digest reduced modulo \<open>q\<close>; the result is the pair written to
  the signature file. \<open>rnd\<close> is the stream of the values of \<open>secrets.randbelow(q - 1)\<close>.
\<close>

partial_function (option) sign_file_v5_loop ::
  "curve \<Rightarrow> nat \<Rightarrow> (nat \<Rightarrow> int) \<Rightarrow> int \<Rightarrow> int \<Rightarrow> nat \<Rightarrow> (error + int \<times> int) option" where
  "sign_file_v5_loop c frames rnd d h i =
     (let k = rnd i + 1
      in case point_mult c frames k (Some (G c)) of
           Inl e \<Rightarrow> Some (Inl e)
         | Inr None \<Rightarrow> sign_file_v5_loop c frames rnd d h (Suc i)
         | Inr (Some (x, y)) \<Rightarrow>
             (let r = x mod q c
              in if r = 0 then sign_file_v5_loop c frames rnd d h (Suc i)
                 else (case mod_inverse frames k (q c) of
                         Inl e \<Rightarrow> Some (Inl e)
                       | Inr k_inv \<Rightarrow>
                           (let s = (k_inv * (h + d * r)) mod q c
                            in if s \<noteq> 0 then Some (Inr (r, s))
                               else sign_file_v5_loop c frames rnd d h (Suc i)))))"

definition sign_file_v5 ::
  "curve \<Rightarrow> nat \<Rightarrow> (nat \<Rightarrow> int) \<Rightarrow> int \<Rightarrow> int \<Rightarrow> (error + int \<times> int) option" where
  "sign_file_v5 c frames rnd d digest = sign_file_v5_loop c frames rnd d (digest mod q c) 0"

section \<open>main_v2.py, main_v3.py and main_v4.py\<close>

text \<open>The three variants share their constants.\<close>

definition params_v2 :: curve where
  "params_v2 = \<lparr>
     p = 57896044618658097711785492504343953926634992332820282019728792003956564823193,
     a = 7,
     b = 43308876546767276905765904595650931995942111794451039587316730224963703718511,
     G = (2, 4018974056539037503335449422937059775635739389905545080690979365213431566280),
     q = 57896044618658097711785492504343953926634992332820282019728792003956564823193 \<rparr>"

text \<open>\<open>point_add\<close> and \<open>point_mult\<close> of \<open>main_v3.py\<close>.\<close>

definition point_add_v3 :: "curve \<Rightarrow> nat \<Rightarrow> point \<Rightarrow> point \<Rightarrow> error + point" where
  "point_add_v3 c frames P Q =
     (case P of None \<Rightarrow> Inr Q
      | Some (x1, y1) \<Rightarrow>
     (case Q of None \<Rightarrow> Inr P
      | Some (x2, y2) \<Rightarrow>
        if x1 = x2 \<and> y1 = (- y2) mod p c then Inr None
        else if x1 = x2 \<and> y1 = y2 \<and> y1 = 0 then Inr None
        else if \<not> (x1 = x2 \<and> y1 = y2) \<and> x1 = x2 then Inr None
        else
          (case (if x1 = x2 \<and> y1 = y2 then mod_inverse frames (2 * y1) (p c)
                 else mod_inverse frames ((x2 - x1) mod p c) (p c)) of
             Inl e \<Rightarrow> Inl e
           | Inr inv_v \<Rightarrow>
               let lam = (if x1 = x2 \<and> y1 = y2 then ((3 * x1 * x1 + a c) * inv_v) mod p c
                          else ((y2 - y1) * inv_v) mod p c);
                   x3 = (lam * lam - x1 - x2) mod p c;
                   y3 = (lam * (x1 - x3) - y1) mod p c
               in Inr (Some (x3, y3)))))"

function point_mult_v3_loop ::
  "curve \<Rightarrow> nat \<Rightarrow> int \<Rightarrow> point \<Rightarrow> point \<Rightarrow> error + point" where
  "point_mult_v3_loop c frames k result temp =
     (if k > 0 then
        (case (if k mod 2 = 1 then point_add_v3 c frames result temp else Inr result) of
           Inl e \<Rightarrow> Inl e
         | Inr result' \<Rightarrow>
             (case point_add_v3 c frames temp temp of
                Inl e \<Rightarrow> Inl e
              | Inr temp' \<Rightarrow> point_mult_v3_loop c frames (k div 2) result' temp'))
      else Inr result)"
  by pat_completeness auto
termination
  by (relation "measure (\<lambda>(c, frames, k, result, temp). nat k)") auto

declare point_mult_v3_loop.simps [simp del]

definition point_mult_v3 :: "curve \<Rightarrow> nat \<Rightarrow> int \<Rightarrow> point \<Rightarrow> error + point" where
  "point_mult_v3 c frames k P =
     (if k = 0 \<or> P = None then Inr None
      else point_mult_v3_loop c frames (k mod q c) None P)"

section \<open>Auxiliary notions\<close>

text \<open>
  The number of frames that \<open>extended_gcd(a, b)\<close> takes: one for the call and one for every
  nested call, that is, one for every step of Euclid's algorithm and one for the last call
  with \<open>a = 0\<close>.
\<close>

function euclid_depth :: "int \<Rightarrow> int \<Rightarrow> nat" where
  "euclid_depth a' b' = (if a' = 0 then 1 else Suc (euclid_depth (b' mod a') a'))"
  by pat_completeness auto
termination
  by (relation "measure (\<lambda>(a', b'). nat \<bar>a'\<bar>)") (auto simp: abs_mod_less)

declare euclid_depth.simps [simp del]

text \<open>
  Two properties of a parameter set, stated on the code's own functions; they are the
  hypotheses of the lemmas on the round trip in \<open>main.py\<close>. \<open>prime_order\<close>: the order \<open>q\<close> is
  greater than \<open>1\<close> and every \<open>e\<close> with \<open>1 \<le> e < q\<close> is coprime to it (\<open>q\<close> is prime).
  \<open>subgroup_law\<close>: the multiples \<open>i * G\<close> that \<open>multiply_point\<close> computes for \<open>0 \<le> i < q\<close>
  add up under \<open>curve_point_sum\<close> as their scalars do modulo \<open>q\<close>. For a base point of order
  \<open>q\<close> on the curve this is the group law of the curve, which is not derived here from the
  curve equation.
\<close>

definition prime_order :: "curve \<Rightarrow> bool" where
  "prime_order c = (1 < q c \<and> (\<forall>e\<in>{1..<q c}. gcd e (q c) = 1))"

definition subgroup_law :: "curve \<Rightarrow> bool" where
  "subgroup_law c =
     (\<forall>i\<in>{0..<q c}. \<forall>j\<in>{0..<q c}.
        (case (multiply_point c i (Some (G c)), multiply_point c j (Some (G c))) of
           (Inr P, Inr Q) \<Rightarrow>
             curve_point_sum c P Q = multiply_point c ((i + j) mod q c) (Some (G c))
         | _ \<Rightarrow> False))"

text \<open>The point that \<open>multiply_point\<close> returns for \<open>i * G\<close> (\<open>None\<close> if it raises).\<close>

definition multiple_of_G :: "curve \<Rightarrow> int \<Rightarrow> point" where
  "multiple_of_G c i =
     (case multiply_point c i (Some (G c)) of Inr P \<Rightarrow> P | Inl e \<Rightarrow> None)"

text \<open>
  A nonce \<open>temp_k\<close> that the loop of \<open>generate_signature\<close> rejects (it goes on to the next
  draw): \<open>temp_point\<close> is \<open>None\<close>, or \<open>r_val\<close> is zero, or \<open>s_val\<close> is zero.
\<close>

definition rejected :: "curve \<Rightarrow> int \<Rightarrow> int \<Rightarrow> int \<Rightarrow> bool" where
  "rejected c secret_key hash_val temp_k =
     (case multiply_point c temp_k (Some (G c)) of
        Inl e \<Rightarrow> False
      | Inr None \<Rightarrow> True
      | Inr (Some (x, y)) \<Rightarrow>
          x mod q c = 0 \<or> (x mod q c * secret_key + temp_k * hash_val) mod q c = 0)"

text \<open>
  A small parameter set for running the functions: the curve \<open>y\<^sup>2 = x\<^sup>3 + 2x + 1\<close> over
  the integers modulo \<open>5\<close>, whose seven points are the multiples of \<open>(0, 1)\<close>.
\<close>

definition small_params :: curve where
  "small_params = \<lparr> p = 5, a = 2, b = 1, G = (0, 1), q = 7 \<rparr>"

section \<open>The modular inverse\<close>

subsection \<open>The loop of main.py\<close>

lemma gcd_mod_step: "gcd (y mod x) x = gcd x (y::int)"
  by (metis gcd.commute gcd_red_int)

lemma inverse_modulo_loop_correct:
  assumes "0 \<le> low" "0 < high" "gcd low high = 1"
    and "(a' * v) mod m = low mod m" "(b' * v) mod m = high mod m"
    and "low = 0 \<longrightarrow> high \<noteq> 1"
  shows "(inverse_modulo_loop a' b' low high * v) mod m = 1 mod m"
  using assms
proof (induction a' b' low high rule: inverse_modulo_loop.induct)
  case (1 a' b' low high)
  show ?case
  proof (cases "low > 1")
    case True
    let ?qt = "high div low"
    have eq: "high - low * ?qt = high mod low"
      by (simp add: minus_mult_div_eq_mod)
    have g: "gcd (high - low * ?qt) low = 1"
      unfolding eq using "1.prems"(3) by (simp only: gcd_mod_step)
    have "(a' * v * ?qt) mod m = (low * ?qt) mod m"
      using "1.prems"(4) by (rule mod_mult_cong) (rule refl)
    with "1.prems"(5) have "(b' * v - a' * v * ?qt) mod m = (high - low * ?qt) mod m"
      by (rule mod_diff_cong)
    moreover have "(b' - a' * ?qt) * v = b' * v - a' * v * ?qt"
      by (simp add: algebra_simps)
    ultimately have c1: "((b' - a' * ?qt) * v) mod m = (high - low * ?qt) mod m"
      by (simp only:)
    have nn: "0 \<le> high - low * ?qt" unfolding eq using True by simp
    have pos: "0 < low" using True by simp
    have nz: "high - low * ?qt = 0 \<longrightarrow> low \<noteq> 1" using True by simp
    have "(inverse_modulo_loop (b' - a' * ?qt) a' (high - low * ?qt) low * v) mod m = 1 mod m"
      using "1.IH"[OF True refl nn pos g c1 "1.prems"(4) nz] .
    moreover have "inverse_modulo_loop a' b' low high
        = inverse_modulo_loop (b' - a' * ?qt) a' (high - low * ?qt) low"
      using True by (subst inverse_modulo_loop.simps) (simp add: Let_def)
    ultimately show ?thesis by (simp only:)
  next
    case False
    with "1.prems"(1) have "low = 0 \<or> low = 1" by linarith
    moreover have "low \<noteq> 0"
    proof
      assume "low = 0"
      with "1.prems"(3) "1.prems"(2) have "high = 1" by simp
      with \<open>low = 0\<close> "1.prems"(6) show False by simp
    qed
    ultimately have l1: "low = 1" by simp
    have "inverse_modulo_loop a' b' low high = a'"
      using False by (subst inverse_modulo_loop.simps) simp
    then show ?thesis using "1.prems"(4) l1 by simp
  qed
qed

lemma inverse_modulo_correct:
  assumes "1 < m" "gcd v m = 1"
  shows "\<exists>w. inverse_modulo v m = Inr w \<and> 0 \<le> w \<and> w < m \<and> (v * w) mod m = 1"
proof -
  let ?r = "inverse_modulo_loop 1 0 (v mod m) m"
  have v0: "v \<noteq> 0" using assms by auto
  have "gcd (v mod m) m = gcd m v" by (rule gcd_mod_step)
  also have "\<dots> = gcd v m" by (rule gcd.commute)
  finally have g: "gcd (v mod m) m = 1" using assms(2) by simp
  have nn: "0 \<le> v mod m" and pos: "0 < m" using assms(1) by simp_all
  have i1: "(1 * v) mod m = (v mod m) mod m" by simp
  have i2: "(0 * v) mod m = m mod m" by simp
  have nz: "v mod m = 0 \<longrightarrow> m \<noteq> 1" using assms(1) by simp
  have "(?r * v) mod m = 1 mod m"
    using inverse_modulo_loop_correct[OF nn pos g i1 i2 nz] .
  then have "(?r * v) mod m = 1" using assms(1) by simp
  then have "((?r mod m) * v) mod m = 1" by (simp only: mod_mult_left_eq)
  then have "(v * (?r mod m)) mod m = 1" by (simp only: mult.commute)
  moreover have "inverse_modulo v m = Inr (?r mod m)" using v0 by (simp add: inverse_modulo_def)
  moreover have "0 \<le> ?r mod m" "?r mod m < m" using assms(1) by simp_all
  ultimately show ?thesis by blast
qed

lemma inverse_modulo_raises: "(inverse_modulo v m = Inl e) = (v = 0 \<and> e = ValueError)"
  by (auto simp: inverse_modulo_def)

subsection \<open>The recursion of the other variants and its frames\<close>

lemma euclid_depth_0: "euclid_depth 0 y = 1"
  by (subst euclid_depth.simps) simp

lemma euclid_depth_step: "x \<noteq> 0 \<Longrightarrow> euclid_depth x y = Suc (euclid_depth (y mod x) x)"
  by (subst euclid_depth.simps) simp

lemma euclid_depth_pos: "0 < euclid_depth x y"
  by (subst euclid_depth.simps) simp

lemma extended_gcd_error: "extended_gcd frames x y = Inl e \<Longrightarrow> e = RecursionError"
  by (induction frames arbitrary: x y e) (auto split: if_splits sum.splits)

lemma extended_gcd_frames:
  "(\<exists>t. extended_gcd frames x y = Inr t) = (euclid_depth x y \<le> frames)"
proof (induction frames arbitrary: x y)
  case 0
  show ?case using euclid_depth_pos [of x y] by simp
next
  case (Suc frames)
  show ?case
  proof (cases "x = 0")
    case True
    then show ?thesis by (simp add: euclid_depth_0)
  next
    case False
    have "(\<exists>t. extended_gcd (Suc frames) x y = Inr t) =
        (\<exists>t. extended_gcd frames (y mod x) x = Inr t)"
      using False by (auto split: sum.splits)
    also have "\<dots> = (euclid_depth (y mod x) x \<le> frames)" by (rule Suc.IH)
    also have "\<dots> = (euclid_depth x y \<le> Suc frames)"
      by (simp add: euclid_depth_step [OF False])
    finally show ?thesis .
  qed
qed

lemma extended_gcd_RecursionError:
  assumes "frames < euclid_depth x y"
  shows "extended_gcd frames x y = Inl RecursionError"
proof (cases "extended_gcd frames x y")
  case (Inl e)
  then show ?thesis using extended_gcd_error [OF Inl] by simp
next
  case (Inr t)
  then have "euclid_depth x y \<le> frames" using extended_gcd_frames [of frames x y] by blast
  with assms show ?thesis by simp
qed

lemma mod_step_pos:
  fixes x r :: int
  assumes "0 < r" "r < x"
  shows "x mod r + r \<le> x"
proof -
  have "0 < x div r" using assms by (simp add: pos_imp_zdiv_pos_iff)
  then have "r * 1 \<le> r * (x div r)" using assms(1) by (intro mult_left_mono) simp_all
  moreover have "x mod r = x - r * (x div r)" by (simp add: minus_mult_div_eq_mod)
  ultimately show ?thesis by simp
qed

lemma mod_step_halves:
  fixes x r :: int
  assumes "r \<noteq> 0" "\<bar>r\<bar> < \<bar>x\<bar>" "0 \<le> x * r"
  shows "\<bar>x mod r\<bar> + \<bar>r\<bar> \<le> \<bar>x\<bar>"
proof (cases "0 < r")
  case True
  with assms have x: "0 < x" by (auto simp: zero_le_mult_iff)
  with True assms(2) have "r < x" by simp
  from mod_step_pos [OF True this] True x show ?thesis by simp
next
  case False
  with assms(1) have r: "r < 0" by simp
  with assms have x: "x < 0" by (auto simp: zero_le_mult_iff)
  from r x assms(2) have lt: "- r < - x" by simp
  from r have pos: "0 < - r" by simp
  have "x mod r = - ((- x) mod (- r))" by (simp add: mod_minus_minus)
  moreover have "0 \<le> (- x) mod (- r)" using pos by simp
  ultimately have "\<bar>x mod r\<bar> = (- x) mod (- r)" by simp
  with mod_step_pos [OF pos lt] r x show ?thesis by simp
qed

lemma euclid_depth_bound: "\<bar>x\<bar> < 2 ^ n \<Longrightarrow> euclid_depth x y \<le> 2 * n + 1"
proof (induction n arbitrary: x y)
  case 0
  then have "x = 0" by simp
  then show ?case by (simp add: euclid_depth_0)
next
  case (Suc n)
  show ?case
  proof (cases "x = 0")
    case True
    then show ?thesis by (simp add: euclid_depth_0)
  next
    case False
    let ?r = "y mod x"
    show ?thesis
    proof (cases "?r = 0")
      case True
      then show ?thesis by (simp add: euclid_depth_step [OF False] euclid_depth_0)
    next
      case r: False
      have lt: "\<bar>?r\<bar> < \<bar>x\<bar>" using False by (rule abs_mod_less)
      have sg: "0 \<le> x * ?r"
      proof (cases "0 < x")
        case True
        then have "0 \<le> ?r" by simp
        with True show ?thesis by simp
      next
        case f: False
        with False have "x < 0" by simp
        then have "?r \<le> 0" by simp
        with \<open>x < 0\<close> show ?thesis by (simp add: mult_nonpos_nonpos)
      qed
      have "\<bar>x mod ?r\<bar> < \<bar>?r\<bar>" using r by (rule abs_mod_less)
      with mod_step_halves [OF r lt sg] have "2 * \<bar>x mod ?r\<bar> < \<bar>x\<bar>" by simp
      with Suc.prems have "\<bar>x mod ?r\<bar> < 2 ^ n" by simp
      then have "euclid_depth (x mod ?r) ?r \<le> 2 * n + 1" by (rule Suc.IH)
      then show ?thesis
        by (simp add: euclid_depth_step [OF False] euclid_depth_step [OF r])
    qed
  qed
qed

lemma euclid_depth_le:
  assumes "\<bar>x\<bar> < 2 ^ n" "2 * n + 1 \<le> frames"
  shows "euclid_depth x y \<le> frames"
  using euclid_depth_bound [OF assms(1), of y] assms(2) by simp

lemma extended_gcd_correct:
  assumes "0 \<le> x" "0 \<le> y" "extended_gcd frames x y = Inr (g, s, t)"
  shows "g = gcd x y \<and> x * s + y * t = gcd x y"
  using assms
proof (induction frames arbitrary: x y g s t)
  case 0
  then show ?case by simp
next
  case (Suc frames)
  show ?case
  proof (cases "x = 0")
    case True
    with Suc.prems show ?thesis by simp
  next
    case False
    with Suc.prems(1) have xp: "0 < x" by simp
    then have nn: "0 \<le> y mod x" by simp
    from Suc.prems(3) False obtain g' s' t' where
      rec: "extended_gcd frames (y mod x) x = Inr (g', s', t')"
      and res: "g = g'" "s = t' - (y div x) * s'" "t = s'"
      by (auto split: sum.splits)
    from Suc.IH [OF nn Suc.prems(1) rec]
    have g': "g' = gcd (y mod x) x" and bez: "(y mod x) * s' + x * t' = gcd (y mod x) x"
      by simp_all
    have gg: "gcd (y mod x) x = gcd x y" by (rule gcd_mod_step)
    have "x * (t' - (y div x) * s') + y * s' = (y - x * (y div x)) * s' + x * t'"
      by (simp add: algebra_simps)
    also have "y - x * (y div x) = y mod x" by (simp add: minus_mult_div_eq_mod)
    finally have "x * s + y * t = gcd x y" using bez gg res by simp
    with g' gg res show ?thesis by simp
  qed
qed

lemma extended_gcd_negative:
  assumes "x \<le> 0" "y < 0" "extended_gcd frames x y = Inr (g, s, t)"
  shows "g < 0"
  using assms
proof (induction frames arbitrary: x y g s t)
  case 0
  then show ?case by simp
next
  case (Suc frames)
  show ?case
  proof (cases "x = 0")
    case True
    with Suc.prems show ?thesis by simp
  next
    case False
    with Suc.prems(1) have xn: "x < 0" by simp
    then have np: "y mod x \<le> 0" by simp
    from Suc.prems(3) False obtain g' s' t' where
      rec: "extended_gcd frames (y mod x) x = Inr (g', s', t')" and res: "g = g'"
      by (auto split: sum.splits)
    from Suc.IH [OF np xn rec] res show ?thesis by simp
  qed
qed

lemma mod_inverse_RecursionError:
  "frames < euclid_depth v m \<Longrightarrow> mod_inverse frames v m = Inl RecursionError"
  by (simp add: mod_inverse_def extended_gcd_RecursionError)

lemma mod_inverse_correct:
  assumes "1 < m" "0 \<le> v" "gcd v m = 1" "euclid_depth v m \<le> frames"
  shows "\<exists>w. mod_inverse frames v m = Inr w \<and> 0 \<le> w \<and> w < m \<and> (v * w) mod m = 1"
proof -
  have mp: "0 \<le> m" using assms(1) by simp
  from assms(4) obtain g s t where eg0: "extended_gcd frames v m = Inr (g, s, t)"
    using extended_gcd_frames [of frames v m] by (metis prod_cases3)
  from extended_gcd_correct [OF assms(2) mp eg0] assms(3)
  have eg: "extended_gcd frames v m = Inr (1, s, t)" and bez: "v * s + m * t = 1"
    using eg0 by simp_all
  have "mod_inverse frames v m = Inr ((s mod m + m) mod m)"
    using eg by (simp add: mod_inverse_def)
  moreover have red: "(s mod m + m) mod m = s mod m" by simp
  moreover have "(v * (s mod m)) mod m = 1"
  proof -
    have "(v * (s mod m)) mod m = (v * s) mod m" by (simp only: mod_mult_right_eq)
    also have "v * s = 1 - m * t" using bez by simp
    also have "(1 - m * t) mod m = 1 mod m" by (simp add: mod_diff_right_eq[symmetric, of 1 "m * t" m])
    finally show ?thesis using assms(1) by simp
  qed
  moreover have "0 \<le> s mod m" "s mod m < m" using assms(1) by simp_all
  ultimately show ?thesis by simp
qed

lemma mod_inverse_raises:
  assumes "0 \<le> m" "0 \<le> v" "gcd v m \<noteq> 1" "euclid_depth v m \<le> frames"
  shows "mod_inverse frames v m = Inl ValueError"
proof -
  from assms(4) obtain g s t where eg0: "extended_gcd frames v m = Inr (g, s, t)"
    using extended_gcd_frames [of frames v m] by (metis prod_cases3)
  from extended_gcd_correct [OF assms(2,1) eg0] have "g = gcd v m" by simp
  then show ?thesis using assms(3) eg0 by (simp add: mod_inverse_def)
qed

subsection \<open>Checking a result\<close>

lemma mod_eqI: "0 \<le> r \<Longrightarrow> r < m \<Longrightarrow> x = k * m + r \<Longrightarrow> x mod m = (r::int)"
  by (simp add: mod_pos_pos_trivial)

lemma mod_neg_eqI:
  assumes "0 \<le> r" "r < m" "x + r = k * m"
  shows "(- x) mod m = (r::int)"
proof -
  have "- x = (- k) * m + r" using assms(3) by (simp add: algebra_simps)
  then have "(- x) mod m = ((- k) * m + r) mod m" by (simp only:)
  also have "\<dots> = r mod m" by (simp only: mod_mult_self3)
  also have "\<dots> = r" using assms(1,2) by (simp add: mod_pos_pos_trivial)
  finally show ?thesis .
qed

text \<open>
  An inverse is determined by its defining equation, so a result of the inverse routines
  can be checked by one multiplication instead of running the Euclidean algorithm.
\<close>

lemma inverse_certificate_coprime:
  fixes m :: int
  assumes "(v * w) mod m = 1"
  shows "gcd v m = 1"
proof -
  have "gcd v m dvd v * w" by simp
  moreover have "gcd v m dvd m" by simp
  ultimately have "gcd v m dvd (v * w) mod m" by (simp add: dvd_mod_iff)
  with assms have "gcd v m dvd 1" by simp
  then show ?thesis by simp
qed

lemma inverse_unique:
  fixes m :: int
  assumes "0 \<le> w" "w < m" "0 \<le> w'" "w' < m" "(v * w) mod m = 1" "(v * w') mod m = 1"
  shows "w = w'"
proof -
  have "w mod m = (w * ((v * w') mod m)) mod m" using assms(6) by simp
  also have "\<dots> = (w * (v * w')) mod m" by (simp only: mod_mult_right_eq)
  also have "w * (v * w') = (v * w) * w'" by (simp add: algebra_simps)
  also have "((v * w) * w') mod m = (((v * w) mod m) * w') mod m" by (simp only: mod_mult_left_eq)
  also have "\<dots> = w' mod m" using assms(5) by simp
  finally show ?thesis using assms(1-4) by simp
qed

lemma inverse_modulo_eqI:
  assumes "1 < m" "0 \<le> w" "w < m" "(v * w) mod m = 1"
  shows "inverse_modulo v m = Inr w"
proof -
  from inverse_modulo_correct[OF assms(1) inverse_certificate_coprime[OF assms(4)]]
  obtain w' where r: "inverse_modulo v m = Inr w'" and w': "0 \<le> w'" "w' < m" "(v * w') mod m = 1"
    by blast
  have "w' = w" by (rule inverse_unique[OF w'(1,2) assms(2,3) w'(3) assms(4)])
  with r show ?thesis by simp
qed

lemma mod_inverse_eqI:
  assumes "1 < m" "0 \<le> v" "0 \<le> w" "w < m" "(v * w) mod m = 1"
    and "v < 2 ^ n" "2 * n + 1 \<le> frames"
  shows "mod_inverse frames v m = Inr w"
proof -
  have "\<bar>v\<bar> < 2 ^ n" using assms(2,6) by simp
  then have d: "euclid_depth v m \<le> frames" using assms(7) by (rule euclid_depth_le)
  from mod_inverse_correct[OF assms(1,2) inverse_certificate_coprime[OF assms(5)] d]
  obtain w' where r: "mod_inverse frames v m = Inr w'"
    and w': "0 \<le> w'" "w' < m" "(v * w') mod m = 1"
    by blast
  have "w' = w" by (rule inverse_unique[OF w'(1,2) assms(3,4) w'(3) assms(5)])
  with r show ?thesis by simp
qed

lemma inverse_mod_eq_mod_inverse:
  "inverse_mod frames v m =
     (case mod_inverse frames v m of
        Inl e \<Rightarrow> (if e = ValueError then Inr None else Inl e)
      | Inr w \<Rightarrow> Inr (Some w))"
proof (cases "extended_gcd frames v m")
  case (Inl e)
  then have "e = RecursionError" by (rule extended_gcd_error)
  with Inl show ?thesis by (simp add: inverse_mod_def mod_inverse_def)
next
  case (Inr t)
  then show ?thesis by (cases t) (simp add: inverse_mod_def mod_inverse_def)
qed

lemma inverse_mod_negative:
  assumes "v < 0" "euclid_depth v m \<le> frames"
  shows "inverse_mod frames v m = Inr None"
proof -
  from assms(2) obtain g s t where eg: "extended_gcd frames v m = Inr (g, s, t)"
    using extended_gcd_frames [of frames v m] by (metis prod_cases3)
  obtain fr where fr: "frames = Suc fr" using eg by (cases frames) simp_all
  have "g < 0"
  proof (cases "m mod v = 0")
    case True
    from eg fr assms(1) True obtain g' s' t' where
      rec: "extended_gcd fr 0 v = Inr (g', s', t')" and res: "g = g'"
      by (auto split: sum.splits)
    from rec have "g' = v" by (cases fr) simp_all
    with res assms(1) show ?thesis by simp
  next
    case False
    have np: "m mod v \<le> 0" using assms(1) by simp
    from eg fr assms(1) obtain g' s' t' where
      rec: "extended_gcd fr (m mod v) v = Inr (g', s', t')" and res: "g = g'"
      by (auto split: sum.splits)
    from extended_gcd_negative [OF np assms(1) rec] res show ?thesis by simp
  qed
  then show ?thesis using eg by (simp add: inverse_mod_def)
qed

lemma inverse_mod_eqI:
  assumes "1 < m" "0 \<le> v" "0 \<le> w" "w < m" "(v * w) mod m = 1"
    and "v < 2 ^ n" "2 * n + 1 \<le> frames"
  shows "inverse_mod frames v m = Inr (Some w)"
  by (simp add: inverse_mod_eq_mod_inverse mod_inverse_eqI[OF assms])


lemma inverse_mod_negativeI:
  assumes "v < 0" "- v < 2 ^ n" "2 * n + 1 \<le> frames"
  shows "inverse_mod frames v m = Inr None"
proof -
  have "\<bar>v\<bar> < 2 ^ n" using assms(1,2) by simp
  then have "euclid_depth v m \<le> frames" using assms(3) by (rule euclid_depth_le)
  with assms(1) show ?thesis by (rule inverse_mod_negative)
qed

lemma inverse_mod_ok:
  assumes "\<bar>v\<bar> < 2 ^ n" "2 * n + 1 \<le> frames"
  shows "\<exists>r. inverse_mod frames v m = Inr r"
proof -
  have "euclid_depth v m \<le> frames" using assms by (rule euclid_depth_le)
  then obtain t where "extended_gcd frames v m = Inr t"
    using extended_gcd_frames [of frames v m] by blast
  then show ?thesis by (cases t) (simp add: inverse_mod_def)
qed

subsection \<open>What the inverse routines return\<close>

text \<open>
  Claim C3, as the code has it. For a modulus \<open>m > 1\<close>: \<open>inverse_modulo\<close> of \<open>main.py\<close>
  returns the inverse \<open>w\<close> with \<open>0 \<le> w < m\<close> and \<open>v * w mod m = 1\<close> for every
  integer \<open>v\<close> coprime to \<open>m\<close>, and it raises exactly when \<open>v\<close> is the integer zero.
  \<open>mod_inverse\<close> of \<open>main1.py\<close> runs its recursive \<open>extended_gcd\<close>, which takes
  \<open>euclid_depth v m\<close> frames, at most \<open>2 * n + 1\<close> for \<open>\<bar>v\<bar> < 2\<^sup>n\<close>. When the frames left
  under the recursion limit are that many, it returns that inverse for every \<open>v \<ge> 0\<close>
  coprime to \<open>m\<close> and raises \<open>ValueError\<close> for every \<open>v \<ge> 0\<close> that is not coprime to \<open>m\<close>;
  when they are fewer, it raises \<open>RecursionError\<close>.
\<close>

theorem C3_modular_inverse:
  "1 < m \<Longrightarrow>
   (gcd v m = 1 \<longrightarrow>
      (\<exists>w. inverse_modulo v m = Inr w \<and> 0 \<le> w \<and> w < m \<and> (v * w) mod m = 1)) \<and>
   ((\<exists>e. inverse_modulo v m = Inl e) = (v = 0)) \<and>
   (0 \<le> v \<and> gcd v m = 1 \<and> euclid_depth v m \<le> frames \<longrightarrow>
      (\<exists>w. mod_inverse frames v m = Inr w \<and> 0 \<le> w \<and> w < m \<and> (v * w) mod m = 1)) \<and>
   (0 \<le> v \<and> gcd v m \<noteq> 1 \<and> euclid_depth v m \<le> frames \<longrightarrow>
      mod_inverse frames v m = Inl ValueError) \<and>
   (frames < euclid_depth v m \<longrightarrow> mod_inverse frames v m = Inl RecursionError) \<and>
   (\<bar>v\<bar> < 2 ^ n \<longrightarrow> euclid_depth v m \<le> 2 * n + 1)"
proof (intro conjI impI)
  assume "1 < m" and "gcd v m = 1"
  then show "\<exists>w. inverse_modulo v m = Inr w \<and> 0 \<le> w \<and> w < m \<and> (v * w) mod m = 1"
    by (rule inverse_modulo_correct)
next
  show "(\<exists>e. inverse_modulo v m = Inl e) = (v = 0)"
    by (simp add: inverse_modulo_raises)
next
  assume "1 < m" and "0 \<le> v \<and> gcd v m = 1 \<and> euclid_depth v m \<le> frames"
  then show "\<exists>w. mod_inverse frames v m = Inr w \<and> 0 \<le> w \<and> w < m \<and> (v * w) mod m = 1"
    by (simp add: mod_inverse_correct)
next
  assume "1 < m" and "0 \<le> v \<and> gcd v m \<noteq> 1 \<and> euclid_depth v m \<le> frames"
  then show "mod_inverse frames v m = Inl ValueError"
    by (simp add: mod_inverse_raises)
next
  assume "frames < euclid_depth v m"
  then show "mod_inverse frames v m = Inl RecursionError"
    by (rule mod_inverse_RecursionError)
next
  assume "\<bar>v\<bar> < 2 ^ n"
  then show "euclid_depth v m \<le> 2 * n + 1"
    by (rule euclid_depth_bound)
qed

theorem C3_modular_inverse_witness:
  "(1::int) < 7 \<and> gcd (3::int) 7 = 1 \<and> (0::int) \<le> 3 \<and>
   \<bar>3::int\<bar> < 2 ^ 2 \<and> euclid_depth 3 7 \<le> 2 * 2 + 1 \<and> euclid_depth 3 7 \<le> 990 \<and>
   (\<exists>w. inverse_modulo 3 7 = Inr w \<and> 0 \<le> w \<and> w < 7 \<and> (3 * w) mod 7 = 1) \<and>
   (\<exists>w. mod_inverse 990 3 7 = Inr w \<and> 0 \<le> w \<and> w < 7 \<and> (3 * w) mod 7 = 1) \<and>
   (0::int) \<le> 14 \<and> gcd (14::int) 7 \<noteq> 1 \<and> euclid_depth 14 7 \<le> 990 \<and>
   mod_inverse 990 14 7 = Inl ValueError \<and>
   (2::nat) < euclid_depth 3 7 \<and> mod_inverse 2 3 7 = Inl RecursionError"
proof -
  have h: "(1::int) < 7" by simp
  have g1: "gcd (3::int) 7 = 1" by code_simp
  have g2: "gcd (14::int) 7 \<noteq> 1" by code_simp
  have d1: "euclid_depth 3 7 = 3" by (simp add: euclid_depth.simps)
  have d2: "euclid_depth 14 7 = 3" by (simp add: euclid_depth.simps)
  have b: "\<bar>3::int\<bar> < 2 ^ 2" by simp
  show ?thesis
    using C3_modular_inverse [OF h, of 3 990 2] C3_modular_inverse [OF h, of 14 990 2]
      C3_modular_inverse [OF h, of 3 2 2] g1 g2 d1 d2 b
    by simp
qed

text \<open>
  Claim C3 as stated fails on \<open>inverse_modulo\<close>: \<open>7\<close> is congruent to \<open>0\<close> modulo \<open>7\<close>
  and \<open>gcd 7 7 = 7\<close>, yet \<open>inverse_modulo(7, 7)\<close> raises nothing and returns \<open>1\<close>.
\<close>

theorem C3_counterexample:
  "gcd (7::int) 7 \<noteq> 1 \<and> (7::int) mod 7 = 0 \<and> inverse_modulo 7 7 = Inr 1"
  by (simp add: inverse_modulo_def inverse_modulo_loop.simps)

section \<open>Point addition and scalar multiplication in main.py\<close>

lemma curve_point_sum_None: "curve_point_sum c P None = Inr P" "curve_point_sum c None P = Inr P"
  by (cases P; simp add: curve_point_sum_def)+

lemma curve_point_sum_double_ok: "\<exists>R. curve_point_sum c P P = Inr R"
proof (cases P)
  case None
  then show ?thesis by (simp add: curve_point_sum_def)
next
  case (Some xy)
  obtain x y where xy: "xy = (x, y)" by (cases xy)
  show ?thesis
  proof (cases "(y + y) mod p c = 0")
    case True
    with Some xy show ?thesis by (simp add: curve_point_sum_def)
  next
    case False
    then have "2 * y \<noteq> 0" by auto
    with Some xy False show ?thesis
      by (simp add: curve_point_sum_def inverse_modulo_def Let_def)
  qed
qed

lemma multiply_point_loop_stop: "factor \<le> 0 \<Longrightarrow> multiply_point_loop c factor cur t = Inr cur"
  by (subst multiply_point_loop.simps) simp

lemma multiply_point_nonpos: "k \<le> 0 \<Longrightarrow> multiply_point c k P = Inr None"
  by (simp add: multiply_point_def multiply_point_loop_stop)

lemma multiply_point_0: "multiply_point c 0 P = Inr None"
  by (simp add: multiply_point_nonpos)

lemma multiply_point_loop_temp_None:
  "multiply_point_loop c factor current None = Inr current"
proof (induction "nat factor" arbitrary: factor rule: less_induct)
  case less
  show ?case
  proof (cases "0 < factor")
    case False
    then show ?thesis by (simp add: multiply_point_loop_stop)
  next
    case True
    then have lt: "nat (factor div 2) < nat factor" by simp
    have "multiply_point_loop c factor current None
        = multiply_point_loop c (factor div 2) current None"
      using True by (subst multiply_point_loop.simps) (simp add: curve_point_sum_None)
    with less.hyps[OF lt] show ?thesis by simp
  qed
qed

lemma multiply_point_Identity: "multiply_point c k None = Inr None"
  by (simp add: multiply_point_def multiply_point_loop_temp_None)

lemma multiply_point_1: "multiply_point c 1 P = Inr P"
proof -
  obtain R where R: "curve_point_sum c P P = Inr R"
    using curve_point_sum_double_ok by blast
  show ?thesis
    unfolding multiply_point_def
    by (subst multiply_point_loop.simps)
       (simp add: curve_point_sum_None R multiply_point_loop_stop)
qed

subsection \<open>Given the law on the multiples of the base point\<close>

lemma subgroup_lawD:
  assumes "subgroup_law c" "0 \<le> i" "i < q c" "0 \<le> j" "j < q c"
  shows "multiply_point c i (Some (G c)) = Inr (multiple_of_G c i)"
    and "curve_point_sum c (multiple_of_G c i) (multiple_of_G c j)
           = Inr (multiple_of_G c ((i + j) mod q c))"
proof -
  have qpos: "0 < q c" using assms(2,3) by simp
  have rng: "\<And>k. 0 \<le> k \<Longrightarrow> k < q c \<Longrightarrow> \<exists>P. multiply_point c k (Some (G c)) = Inr P"
  proof -
    fix k assume "0 \<le> k" "k < q c"
    then have "k \<in> {0..<q c}" by simp
    with assms(1) have "case (multiply_point c k (Some (G c)), multiply_point c k (Some (G c))) of
           (Inr P, Inr Q) \<Rightarrow>
             curve_point_sum c P Q = multiply_point c ((k + k) mod q c) (Some (G c))
         | _ \<Rightarrow> False"
      unfolding subgroup_law_def by blast
    then show "\<exists>P. multiply_point c k (Some (G c)) = Inr P"
      by (cases "multiply_point c k (Some (G c))") simp_all
  qed
  have val: "\<And>k. 0 \<le> k \<Longrightarrow> k < q c \<Longrightarrow>
      multiply_point c k (Some (G c)) = Inr (multiple_of_G c k)"
  proof -
    fix k assume "0 \<le> k" "k < q c"
    from rng[OF this] obtain P where "multiply_point c k (Some (G c)) = Inr P" ..
    then show "multiply_point c k (Some (G c)) = Inr (multiple_of_G c k)"
      by (simp add: multiple_of_G_def)
  qed
  show "multiply_point c i (Some (G c)) = Inr (multiple_of_G c i)"
    using val assms(2,3) by simp
  have "i \<in> {0..<q c}" "j \<in> {0..<q c}" using assms by simp_all
  with assms(1) have "case (multiply_point c i (Some (G c)), multiply_point c j (Some (G c))) of
           (Inr P, Inr Q) \<Rightarrow>
             curve_point_sum c P Q = multiply_point c ((i + j) mod q c) (Some (G c))
         | _ \<Rightarrow> False"
    unfolding subgroup_law_def by blast
  then have "curve_point_sum c (multiple_of_G c i) (multiple_of_G c j)
      = multiply_point c ((i + j) mod q c) (Some (G c))"
    using val[OF assms(2,3)] val[OF assms(4,5)] by simp
  moreover have "0 \<le> (i + j) mod q c" "(i + j) mod q c < q c" using qpos by simp_all
  ultimately show "curve_point_sum c (multiple_of_G c i) (multiple_of_G c j)
           = Inr (multiple_of_G c ((i + j) mod q c))"
    using val by simp
qed

lemma mod_add_mult_mod: "(x + y * (z mod n)) mod n = (x + y * z) mod (n::int)"
proof -
  have "(x + y * (z mod n)) mod n = (x + (y * (z mod n)) mod n) mod n"
    by (simp only: mod_add_right_eq)
  also have "(y * (z mod n)) mod n = (y * z) mod n"
    by (simp only: mod_mult_right_eq)
  also have "(x + (y * z) mod n) mod n = (x + y * z) mod n"
    by (simp only: mod_add_right_eq)
  finally show ?thesis .
qed

lemma double_and_add_arith:
  fixes f m j n :: int
  assumes "0 < n"
  shows "((if f mod 2 = 1 then (m + j) mod n else m) + (f div 2) * ((j + j) mod n)) mod n
       = (m + f * j) mod n"
proof -
  have f: "f = 2 * (f div 2) + f mod 2" by simp
  show ?thesis
  proof (cases "f mod 2 = 1")
    case True
    have "((m + j) mod n + (f div 2) * ((j + j) mod n)) mod n
        = ((m + j) mod n + (f div 2) * (j + j)) mod n"
      by (rule mod_add_mult_mod)
    also have "\<dots> = ((m + j) + (f div 2) * (j + j)) mod n"
      by (simp only: mod_add_left_eq)
    also have "(m + j) + (f div 2) * (j + j) = m + (2 * (f div 2) + 1) * j"
      by (simp add: algebra_simps)
    also have "2 * (f div 2) + 1 = f" using f True by simp
    finally show ?thesis using True by simp
  next
    case False
    then have z: "f mod 2 = 0" by presburger
    have "(m + (f div 2) * ((j + j) mod n)) mod n = (m + (f div 2) * (j + j)) mod n"
      by (rule mod_add_mult_mod)
    also have "m + (f div 2) * (j + j) = m + (2 * (f div 2)) * j"
      by (simp add: algebra_simps)
    also have "2 * (f div 2) = f" using f z by simp
    finally show ?thesis using False by simp
  qed
qed

lemma multiply_point_loop_law:
  assumes "subgroup_law c" "0 \<le> m" "m < q c" "0 \<le> j" "j < q c" "0 \<le> f"
  shows "multiply_point_loop c f (multiple_of_G c m) (multiple_of_G c j)
           = Inr (multiple_of_G c ((m + f * j) mod q c))"
  using assms(2-)
proof (induction "nat f" arbitrary: f m j rule: less_induct)
  case less
  have qpos: "0 < q c" using less.prems by simp
  show ?case
  proof (cases "f = 0")
    case True
    then show ?thesis using less.prems by (simp add: multiply_point_loop_stop)
  next
    case False
    with less.prems have fpos: "0 < f" by simp
    let ?m' = "if f mod 2 = 1 then (m + j) mod q c else m"
    let ?j' = "(j + j) mod q c"
    have cur: "(if f mod 2 = 1 then curve_point_sum c (multiple_of_G c m) (multiple_of_G c j)
                else Inr (multiple_of_G c m)) = Inr (multiple_of_G c ?m')"
      using subgroup_lawD(2)[OF assms(1) less.prems(1,2,3,4)] by simp
    have tmp: "curve_point_sum c (multiple_of_G c j) (multiple_of_G c j) = Inr (multiple_of_G c ?j')"
      using subgroup_lawD(2)[OF assms(1) less.prems(3,4,3,4)] by simp
    have step: "multiply_point_loop c f (multiple_of_G c m) (multiple_of_G c j)
        = multiply_point_loop c (f div 2) (multiple_of_G c ?m') (multiple_of_G c ?j')"
      using fpos by (subst multiply_point_loop.simps) (simp only: cur tmp if_True sum.case)
    have m'r: "0 \<le> ?m'" "?m' < q c" using less.prems qpos by simp_all
    have j'r: "0 \<le> ?j'" "?j' < q c" using qpos by simp_all
    have lt: "nat (f div 2) < nat f" using fpos by simp
    have f2: "0 \<le> f div 2" using fpos by simp
    have "multiply_point_loop c (f div 2) (multiple_of_G c ?m') (multiple_of_G c ?j')
        = Inr (multiple_of_G c ((?m' + (f div 2) * ?j') mod q c))"
      using less.hyps[OF lt m'r j'r f2] .
    then show ?thesis using step double_and_add_arith[OF qpos, of f m j] by simp
  qed
qed

lemma multiple_of_G_0: "multiple_of_G c 0 = None"
  by (simp add: multiple_of_G_def multiply_point_def multiply_point_loop_stop)

lemma multiple_of_G_1:
  assumes "subgroup_law c" "1 < q c"
  shows "multiple_of_G c 1 = Some (G c)"
proof -
  have v: "multiply_point c 1 (Some (G c)) = Inr (multiple_of_G c 1)"
    using subgroup_lawD(1)[OF assms(1), of 1 0] assms(2) by simp
  have s1: "curve_point_sum c None (Some (G c)) = Inr (Some (G c))"
    by (simp add: curve_point_sum_def)
  show ?thesis
  proof (cases "curve_point_sum c (Some (G c)) (Some (G c))")
    case (Inl e)
    then have "multiply_point c 1 (Some (G c)) = Inl e"
      unfolding multiply_point_def
      by (subst multiply_point_loop.simps) (simp add: s1)
    with v show ?thesis by simp
  next
    case (Inr t)
    then have "multiply_point c 1 (Some (G c)) = Inr (Some (G c))"
      unfolding multiply_point_def
      by (subst multiply_point_loop.simps) (simp add: s1 multiply_point_loop_stop)
    with v show ?thesis by simp
  qed
qed

lemma multiply_point_G:
  assumes "subgroup_law c" "1 < q c" "0 \<le> k"
  shows "multiply_point c k (Some (G c)) = Inr (multiple_of_G c (k mod q c))"
proof -
  have "multiply_point_loop c k (multiple_of_G c 0) (multiple_of_G c 1)
      = Inr (multiple_of_G c ((0 + k * 1) mod q c))"
    by (rule multiply_point_loop_law[OF assms(1)]) (use assms in simp_all)
  then show ?thesis
    by (simp add: multiply_point_def multiple_of_G_0 multiple_of_G_1[OF assms(1,2)])
qed

lemma multiply_point_multiple:
  assumes "subgroup_law c" "0 \<le> d" "d < q c" "0 \<le> u"
  shows "multiply_point c u (multiple_of_G c d) = Inr (multiple_of_G c ((u * d) mod q c))"
proof -
  have "multiply_point_loop c u (multiple_of_G c 0) (multiple_of_G c d)
      = Inr (multiple_of_G c ((0 + u * d) mod q c))"
    by (rule multiply_point_loop_law[OF assms(1)]) (use assms in simp_all)
  then show ?thesis
    by (simp add: multiply_point_def multiple_of_G_0)
qed

lemma multiply_point_order:
  assumes "subgroup_law c" "0 \<le> d" "d < q c" "0 \<le> k" "k mod q c = 0"
  shows "multiply_point c k (multiple_of_G c d) = Inr None"
proof -
  have "(k * d) mod q c = ((k mod q c) * d) mod q c" by (simp only: mod_mult_left_eq)
  then have "(k * d) mod q c = 0" using assms(5) by simp
  with multiply_point_multiple[OF assms(1,2,3,4)] show ?thesis
    by (simp add: multiple_of_G_0)
qed

text \<open>On a valid parameter set no multiple \<open>d * G\<close> with \<open>1 \<le> d < q\<close> is the Identity.\<close>

lemma multiple_of_G_not_Identity:
  assumes po: "prime_order c" and law: "subgroup_law c" and d: "1 \<le> d" "d < q c"
  shows "multiple_of_G c d \<noteq> None"
proof
  assume none: "multiple_of_G c d = None"
  have q1: "1 < q c" using po by (simp add: prime_order_def)
  have "d \<in> {1..<q c}" using d by simp
  with po have "gcd d (q c) = 1" unfolding prime_order_def by blast
  from inverse_modulo_correct[OF q1 this] obtain w where
    w: "0 \<le> w" and dw: "(d * w) mod q c = 1" by blast
  have d0: "0 \<le> d" using d by simp
  have "multiply_point c w (multiple_of_G c d) = Inr (multiple_of_G c ((w * d) mod q c))"
    by (rule multiply_point_multiple[OF law d0 d(2) w])
  moreover have "(w * d) mod q c = 1" using dw by (simp add: mult.commute)
  ultimately have "multiply_point c w None = Inr (Some (G c))"
    using none multiple_of_G_1[OF law q1] by simp
  then show False by (simp add: multiply_point_Identity)
qed

subsection \<open>The small parameter set\<close>

lemmas small_eval = multiply_point_def multiply_point_loop.simps curve_point_sum_def
  inverse_modulo_def inverse_modulo_loop.simps small_params_def Let_def

lemma small_multiples:
  "multiply_point small_params 0 (Some (0, 1)) = Inr None"
  "multiply_point small_params 1 (Some (0, 1)) = Inr (Some (0, 1))"
  "multiply_point small_params 2 (Some (0, 1)) = Inr (Some (1, 3))"
  "multiply_point small_params 3 (Some (0, 1)) = Inr (Some (3, 3))"
  "multiply_point small_params 4 (Some (0, 1)) = Inr (Some (3, 2))"
  "multiply_point small_params 5 (Some (0, 1)) = Inr (Some (1, 2))"
  "multiply_point small_params 6 (Some (0, 1)) = Inr (Some (0, 4))"
  by (simp_all add: small_eval)

lemma small_G_q: "G small_params = (0, 1)" "q small_params = 7"
  by (simp_all add: small_params_def)

lemma int_interval_7: "{0..<7::int} = {0, 1, 2, 3, 4, 5, 6}"
  by auto

lemma small_prime_order: "prime_order small_params"
  unfolding prime_order_def small_params_def by code_simp

lemma small_subgroup_law: "subgroup_law small_params"
  unfolding subgroup_law_def small_G_q int_interval_7
  by (simp add: small_multiples)
     (simp add: curve_point_sum_def inverse_modulo_def inverse_modulo_loop.simps
        small_params_def Let_def)

section \<open>Signing and verification in main.py\<close>

text \<open>What a returned signature tells about the nonce that produced it.\<close>

lemma generate_signature_loop_returns:
  assumes "generate_signature_loop c rnd secret_key hash_val i = Some (Inr (r_val, s_val))"
  shows "\<exists>j x y. multiply_point c (rnd j + 1) (Some (G c)) = Inr (Some (x, y)) \<and>
           r_val = x mod q c \<and> r_val \<noteq> 0 \<and>
           s_val = (r_val * secret_key + (rnd j + 1) * hash_val) mod q c \<and> s_val \<noteq> 0"
proof -
  let ?P = "\<lambda>c rnd secret_key hash_val (i::nat) (res::error + int \<times> int).
      \<forall>r s. res = Inr (r, s) \<longrightarrow>
          (\<exists>j x y. multiply_point c (rnd j + 1) (Some (G c)) = Inr (Some (x, y)) \<and>
             r = x mod q c \<and> r \<noteq> 0 \<and>
             s = (r * secret_key + (rnd j + 1) * hash_val) mod q c \<and> s \<noteq> 0)"
  have "?P c rnd secret_key hash_val i (Inr (r_val, s_val))"
  proof (rule generate_signature_loop.raw_induct[where P = ?P, OF _ assms])
    fix loop :: "curve \<Rightarrow> (nat \<Rightarrow> int) \<Rightarrow> int \<Rightarrow> int \<Rightarrow> nat \<Rightarrow> (error + int \<times> int) option"
      and c :: curve and rnd :: "nat \<Rightarrow> int" and secret_key hash_val :: int
      and i :: nat and res :: "error + int \<times> int"
    assume IH: "\<And>c rnd secret_key hash_val i res.
        loop c rnd secret_key hash_val i = Some res \<Longrightarrow> ?P c rnd secret_key hash_val i res"
    assume body: "(let temp_k = rnd i + 1
      in case multiply_point c temp_k (Some (G c)) of
           Inl e \<Rightarrow> Some (Inl e)
         | Inr None \<Rightarrow> loop c rnd secret_key hash_val (Suc i)
         | Inr (Some (x, y)) \<Rightarrow>
             (let r_val = x mod q c
              in if r_val = 0 then loop c rnd secret_key hash_val (Suc i)
                 else (let s_val = (r_val * secret_key + temp_k * hash_val) mod q c
                       in if s_val \<noteq> 0 then Some (Inr (r_val, s_val))
                          else loop c rnd secret_key hash_val (Suc i)))) = Some res"
    show "?P c rnd secret_key hash_val i res"
    proof (intro allI impI)
      fix r s assume res: "res = Inr (r, s)"
      show "\<exists>j x y. multiply_point c (rnd j + 1) (Some (G c)) = Inr (Some (x, y)) \<and>
             r = x mod q c \<and> r \<noteq> 0 \<and>
             s = (r * secret_key + (rnd j + 1) * hash_val) mod q c \<and> s \<noteq> 0"
      proof (cases "multiply_point c (rnd i + 1) (Some (G c))")
        case (Inl e)
        with body res show ?thesis by (simp add: Let_def)
      next
        case (Inr P)
        show ?thesis
        proof (cases P)
          case None
          with Inr body have "loop c rnd secret_key hash_val (Suc i) = Some res"
            by (simp add: Let_def)
          from IH[OF this] res show ?thesis by blast
        next
          case (Some xy)
          obtain x y where xy: "xy = (x, y)" by (cases xy)
          let ?r = "x mod q c"
          let ?s = "(?r * secret_key + (rnd i + 1) * hash_val) mod q c"
          have mp: "multiply_point c (rnd i + 1) (Some (G c)) = Inr (Some (x, y))"
            using Inr Some xy by simp
          show ?thesis
          proof (cases "?r = 0 \<or> ?s = 0")
            case True
            with mp body have "loop c rnd secret_key hash_val (Suc i) = Some res"
              by (auto simp add: Let_def split: if_splits)
            from IH[OF this] res show ?thesis by blast
          next
            case False
            with mp body have "res = Inr (?r, ?s)"
              by (auto simp add: Let_def split: if_splits)
            with res have r: "r = ?r" and s: "s = ?s" by auto
            have "multiply_point c (rnd i + 1) (Some (G c)) = Inr (Some (x, y)) \<and>
                r = x mod q c \<and> r \<noteq> 0 \<and>
                s = (r * secret_key + (rnd i + 1) * hash_val) mod q c \<and> s \<noteq> 0"
              using False mp r s by simp
            then show ?thesis by blast
          qed
        qed
      qed
    qed
  qed
  then show ?thesis by blast
qed

lemma verify_arith:
  fixes n :: int
  assumes ew: "(e * w) mod n = 1"
  shows "(((r * d + k * e) mod n * w) mod n + (((- r * w) mod n) * d) mod n) mod n = k mod n"
proof -
  let ?S = "r * d + k * e"
  let ?B = "- r * w"
  have "((?S mod n * w) mod n + ((?B mod n) * d) mod n) mod n
      = ((?S * w) mod n + (?B * d) mod n) mod n"
    by (simp only: mod_mult_left_eq)
  also have "\<dots> = (?S * w + ?B * d) mod n"
    by (simp only: mod_add_eq)
  also have "?S * w + ?B * d = k * (e * w)"
    by (simp add: algebra_simps)
  also have "(k * (e * w)) mod n = (k * ((e * w) mod n)) mod n"
    by (simp only: mod_mult_right_eq)
  also have "\<dots> = k mod n" using ew by simp
  finally show ?thesis .
qed

lemma hash_val_range:
  assumes "1 < n"
  shows "1 \<le> (if digest mod n = 0 then 1 else digest mod n)"
    and "(if digest mod n = 0 then 1 else digest mod n) < (n::int)"
proof -
  have nn: "0 \<le> digest mod n" and lt: "digest mod n < n" using assms by simp_all
  show "1 \<le> (if digest mod n = 0 then 1 else digest mod n)"
    using nn by (cases "digest mod n = 0") simp_all
  show "(if digest mod n = 0 then 1 else digest mod n) < n"
    using lt assms by (cases "digest mod n = 0") simp_all
qed

lemma check_signature_accepts:
  assumes po: "prime_order c" and law: "subgroup_law c"
    and d: "0 \<le> d" "d < q c"
    and k: "multiply_point c k (Some (G c)) = Inr (Some (x, y))"
    and r: "x mod q c \<noteq> 0"
    and s: "(x mod q c * d + k * (if digest mod q c = 0 then 1 else digest mod q c)) mod q c \<noteq> 0"
  shows "check_signature c digest
           (x mod q c, (x mod q c * d + k * (if digest mod q c = 0 then 1 else digest mod q c)) mod q c)
           (multiple_of_G c d) = Inr True"
proof -
  let ?e = "if digest mod q c = 0 then 1 else digest mod q c"
  let ?r = "x mod q c"
  let ?s = "(?r * d + k * ?e) mod q c"
  have q1: "1 < q c" using po by (simp add: prime_order_def)
  have qpos: "0 < q c" using q1 by simp
  have e_rng: "1 \<le> ?e" "?e < q c" using hash_val_range[OF q1] by simp_all
  then have "?e \<in> {1..<q c}" by simp
  with po have "gcd ?e (q c) = 1" unfolding prime_order_def by blast
  from inverse_modulo_correct[OF q1 this] obtain w where
    w: "inverse_modulo ?e (q c) = Inr w" and ew: "(?e * w) mod q c = 1" by blast
  have kpos: "0 < k"
  proof (rule ccontr)
    assume "\<not> 0 < k"
    then have "multiply_point c k (Some (G c)) = Inr None" by (simp add: multiply_point_nonpos)
    with k show False by simp
  qed
  then have k0: "0 \<le> k" by simp
  have Tk: "multiple_of_G c (k mod q c) = Some (x, y)"
    using multiply_point_G[OF law q1 k0] k by simp
  let ?u1 = "(?s * w) mod q c"
  let ?u2 = "(- ?r * w) mod q c"
  have u1: "0 \<le> ?u1" "?u1 < q c" and u2: "0 \<le> ?u2" "?u2 < q c" using qpos by simp_all
  have P1: "multiply_point c ?u1 (Some (G c)) = Inr (multiple_of_G c ?u1)"
    using multiply_point_G[OF law q1 u1(1)] by simp
  have P2: "multiply_point c ?u2 (multiple_of_G c d) = Inr (multiple_of_G c ((?u2 * d) mod q c))"
    by (rule multiply_point_multiple[OF law d u2(1)])
  have ud: "0 \<le> (?u2 * d) mod q c" "(?u2 * d) mod q c < q c" using qpos by simp_all
  have "curve_point_sum c (multiple_of_G c ?u1) (multiple_of_G c ((?u2 * d) mod q c))
      = Inr (multiple_of_G c ((?u1 + (?u2 * d) mod q c) mod q c))"
    by (rule subgroup_lawD(2)[OF law u1 ud])
  also have "(?u1 + (?u2 * d) mod q c) mod q c = k mod q c"
    by (rule verify_arith[OF ew])
  finally have sum: "curve_point_sum c (multiple_of_G c ?u1) (multiple_of_G c ((?u2 * d) mod q c))
      = Inr (Some (x, y))" using Tk by simp
  have rng: "1 \<le> ?r \<and> ?r < q c \<and> 1 \<le> ?s \<and> ?s < q c"
  proof -
    have "0 \<le> ?r" "?r < q c" "0 \<le> ?s" "?s < q c" using qpos by simp_all
    with r s show ?thesis by linarith
  qed
  show ?thesis
    unfolding check_signature_def
    using rng by (simp add: Let_def w P1 P2 sum del: mult_minus_left)
qed

lemma check_signature_out_of_range:
  "\<not> (1 \<le> r_val \<and> r_val < q c \<and> 1 \<le> s_val \<and> s_val < q c) \<Longrightarrow>
     check_signature c digest (r_val, s_val) open_key = Inr False"
  by (simp add: check_signature_def)

subsection \<open>The round trip, given the law on the multiples of the base point\<close>

text \<open>
  The round trip in \<open>main.py\<close>, given the two properties \<open>prime_order\<close> and \<open>subgroup_law\<close>
  of the parameter set. Let \<open>d\<close> be a private key with \<open>1 \<le> d < q\<close> and \<open>Q\<close> the public key
  \<open>d * G\<close> that \<open>multiply_point\<close> computes. Then every signature that \<open>generate_signature\<close>
  returns for a digest under the key \<open>d\<close>, whatever the random source delivers, is accepted
  by \<open>check_signature\<close> for the same digest and \<open>Q\<close>. That the parameters of \<open>main.py\<close> have
  the property \<open>subgroup_law\<close> is the group law of the curve, which is not derived here.
\<close>

lemma sign_then_verify_subgroup_law:
  assumes "prime_order c" and "subgroup_law c" and "1 \<le> d" and "d < q c"
    and "multiply_point c d (Some (G c)) = Inr Q"
    and "generate_signature c rnd d digest = Some (Inr sig)"
  shows "check_signature c digest sig Q = Inr True"
proof -
  let ?e = "if digest mod q c = 0 then 1 else digest mod q c"
  obtain r_val s_val where sig: "sig = (r_val, s_val)" by (cases sig)
  have d0: "0 \<le> d" using assms(3) by simp
  have Q: "Q = multiple_of_G c d"
    using subgroup_lawD(1)[OF assms(2) d0 assms(4) d0 assms(4)] assms(5) by simp
  have "generate_signature_loop c rnd d ?e 0 = Some (Inr (r_val, s_val))"
    using assms(6) sig by (simp add: generate_signature_def Let_def)
  from generate_signature_loop_returns[OF this] obtain j x y where
    k: "multiply_point c (rnd j + 1) (Some (G c)) = Inr (Some (x, y))"
    and r: "r_val = x mod q c" "r_val \<noteq> 0"
    and s: "s_val = (r_val * d + (rnd j + 1) * ?e) mod q c" "s_val \<noteq> 0"
    by blast
  have "check_signature c digest (x mod q c, (x mod q c * d + (rnd j + 1) * ?e) mod q c)
      (multiple_of_G c d) = Inr True"
    by (rule check_signature_accepts[OF assms(1,2) d0 assms(4) k]) (use r s in simp_all)
  then show ?thesis using sig Q r s by simp
qed

lemma sign_then_verify_small:
  "prime_order small_params \<and> subgroup_law small_params \<and>
   (1::int) \<le> 3 \<and> 3 < q small_params \<and>
   multiply_point small_params 3 (Some (G small_params)) = Inr (Some (3, 3)) \<and>
   generate_signature small_params (\<lambda>i. 1) 3 10 = Some (Inr (1, 2)) \<and>
   check_signature small_params 10 (1, 2) (Some (3, 3)) = Inr True"
proof -
  have h3: "(1::int) \<le> 3" by simp
  have h4: "3 < q small_params" by (simp add: small_G_q)
  have Q: "multiply_point small_params 3 (Some (G small_params)) = Inr (Some (3, 3))"
    by (simp add: small_G_q small_multiples)
  have sg: "generate_signature small_params (\<lambda>i. 1) 3 10 = Some (Inr (1, 2))"
    unfolding generate_signature_def
    by (subst generate_signature_loop.simps) (simp add: small_G_q small_multiples)
  show ?thesis
    using sign_then_verify_subgroup_law [OF small_prime_order small_subgroup_law h3 h4 Q sg]
      small_prime_order small_subgroup_law h4 Q sg
    by simp
qed

subsection \<open>The nonce loop of signing\<close>

lemma generate_signature_loop_rejected:
  assumes "rejected c secret_key hash_val (rnd i + 1)"
  shows "generate_signature_loop c rnd secret_key hash_val i
       = generate_signature_loop c rnd secret_key hash_val (Suc i)"
proof (cases "multiply_point c (rnd i + 1) (Some (G c))")
  case (Inl e)
  with assms show ?thesis by (simp add: rejected_def)
next
  case (Inr P)
  show ?thesis
  proof (cases P)
    case None
    with Inr show ?thesis by (subst generate_signature_loop.simps) simp
  next
    case (Some xy)
    obtain x y where "xy = (x, y)" by (cases xy)
    with Inr Some assms show ?thesis
      by (subst generate_signature_loop.simps) (auto simp add: rejected_def Let_def)
  qed
qed

lemma generate_signature_loop_accepted:
  assumes "\<not> rejected c secret_key hash_val (rnd i + 1)"
  shows "generate_signature_loop c rnd secret_key hash_val i \<noteq> None"
proof (cases "multiply_point c (rnd i + 1) (Some (G c))")
  case (Inl e)
  then show ?thesis by (subst generate_signature_loop.simps) simp
next
  case (Inr P)
  show ?thesis
  proof (cases P)
    case None
    with Inr assms show ?thesis by (simp add: rejected_def)
  next
    case (Some xy)
    obtain x y where "xy = (x, y)" by (cases xy)
    with Inr Some assms show ?thesis
      by (subst generate_signature_loop.simps) (auto simp add: rejected_def Let_def)
  qed
qed

lemma generate_signature_loop_skip:
  assumes "\<forall>j<n. rejected c secret_key hash_val (rnd (i + j) + 1)"
  shows "generate_signature_loop c rnd secret_key hash_val i
       = generate_signature_loop c rnd secret_key hash_val (i + n)"
  using assms
proof (induction n)
  case 0
  show ?case by simp
next
  case (Suc n)
  then have "generate_signature_loop c rnd secret_key hash_val i
       = generate_signature_loop c rnd secret_key hash_val (i + n)" by simp
  also have "\<dots> = generate_signature_loop c rnd secret_key hash_val (Suc (i + n))"
    using Suc.prems by (intro generate_signature_loop_rejected) simp
  finally show ?case by simp
qed

lemma generate_signature_loop_diverges:
  assumes "\<forall>j. rejected c secret_key hash_val (rnd j + 1)"
  shows "generate_signature_loop c rnd secret_key hash_val i = None"
proof (cases "generate_signature_loop c rnd secret_key hash_val i")
  case None
  then show ?thesis .
next
  case (Some res)
  let ?P = "\<lambda>c rnd secret_key hash_val (i::nat) (res::error + int \<times> int).
      \<not> (\<forall>j. rejected c secret_key hash_val (rnd j + 1))"
  have "?P c rnd secret_key hash_val i res"
  proof (rule generate_signature_loop.raw_induct[where P = ?P, OF _ Some])
    fix loop :: "curve \<Rightarrow> (nat \<Rightarrow> int) \<Rightarrow> int \<Rightarrow> int \<Rightarrow> nat \<Rightarrow> (error + int \<times> int) option"
      and c :: curve and rnd :: "nat \<Rightarrow> int" and secret_key hash_val :: int
      and i :: nat and res :: "error + int \<times> int"
    assume IH: "\<And>c rnd secret_key hash_val i res.
        loop c rnd secret_key hash_val i = Some res \<Longrightarrow> ?P c rnd secret_key hash_val i res"
    assume body: "(let temp_k = rnd i + 1
      in case multiply_point c temp_k (Some (G c)) of
           Inl e \<Rightarrow> Some (Inl e)
         | Inr None \<Rightarrow> loop c rnd secret_key hash_val (Suc i)
         | Inr (Some (x, y)) \<Rightarrow>
             (let r_val = x mod q c
              in if r_val = 0 then loop c rnd secret_key hash_val (Suc i)
                 else (let s_val = (r_val * secret_key + temp_k * hash_val) mod q c
                       in if s_val \<noteq> 0 then Some (Inr (r_val, s_val))
                          else loop c rnd secret_key hash_val (Suc i)))) = Some res"
    show "?P c rnd secret_key hash_val i res"
    proof
      assume all: "\<forall>j. rejected c secret_key hash_val (rnd j + 1)"
      then have rej: "rejected c secret_key hash_val (rnd i + 1)" by simp
      have "loop c rnd secret_key hash_val (Suc i) = Some res"
      proof (cases "multiply_point c (rnd i + 1) (Some (G c))")
        case (Inl e)
        with rej show ?thesis by (simp add: rejected_def)
      next
        case (Inr P)
        show ?thesis
        proof (cases P)
          case None
          with Inr body show ?thesis by (simp add: Let_def)
        next
          case (Some xy)
          obtain x y where "xy = (x, y)" by (cases xy)
          with Inr Some rej body show ?thesis
            by (auto simp add: rejected_def Let_def split: if_splits)
        qed
      qed
      from IH[OF this] all show False by simp
    qed
  qed
  with assms show ?thesis by simp
qed

text \<open>
  Claim C8, as the code has it. The loop of \<open>generate_signature\<close> has no iteration cap
  and reports no error of its own: signing returns (a signature, or the exception of the
  point arithmetic) exactly when the random source delivers, after any number of rejected
  nonces, a nonce that is not rejected; on a source whose nonces are all rejected it never
  returns.
\<close>

theorem C8_signing_returns_iff:
  "(generate_signature c rnd secret_key digest \<noteq> None) =
   (\<exists>n. \<not> rejected c secret_key (if digest mod q c = 0 then 1 else digest mod q c) (rnd n + 1))"
proof -
  define e where "e = (if digest mod q c = 0 then 1 else digest mod q c)"
  have gs: "generate_signature c rnd secret_key digest
      = generate_signature_loop c rnd secret_key e 0"
    by (simp add: generate_signature_def Let_def e_def)
  have "(generate_signature_loop c rnd secret_key e 0 \<noteq> None) =
      (\<exists>n. \<not> rejected c secret_key e (rnd n + 1))"
  proof
    assume ret: "generate_signature_loop c rnd secret_key e 0 \<noteq> None"
    show "\<exists>n. \<not> rejected c secret_key e (rnd n + 1)"
    proof (rule ccontr)
      assume "\<not> (\<exists>n. \<not> rejected c secret_key e (rnd n + 1))"
      then have "\<forall>j. rejected c secret_key e (rnd j + 1)" by simp
      from generate_signature_loop_diverges[OF this] ret show False by simp
    qed
  next
    assume "\<exists>n. \<not> rejected c secret_key e (rnd n + 1)"
    then obtain n where n: "\<not> rejected c secret_key e (rnd n + 1)"
      and least: "\<forall>j<n. rejected c secret_key e (rnd j + 1)"
      using exists_least_iff[of "\<lambda>n. \<not> rejected c secret_key e (rnd n + 1)"] by auto
    have "generate_signature_loop c rnd secret_key e 0
        = generate_signature_loop c rnd secret_key e (0 + n)"
      by (rule generate_signature_loop_skip) (use least in simp)
    with generate_signature_loop_accepted[of c secret_key e rnd n, OF n]
    show "generate_signature_loop c rnd secret_key e 0 \<noteq> None" by simp
  qed
  then show ?thesis unfolding gs e_def .
qed

text \<open>
  Claim C8 as stated fails. With the parameters of \<open>main.py\<close>, the private key \<open>q - 1\<close>
  and the digest \<open>1\<close>, the nonce \<open>1\<close> gives \<open>r = 1\<close> and \<open>s = 0\<close>; on a random source that
  keeps delivering it, signing neither returns nor reports an error.
\<close>

lemma main_G_q:
  "G main_params = (1, 0x8D91E471E0989CDA27DF505A453F2B7635294F2DDF23E3B122ACC99C9E9F1E14)"
  "q main_params = 0xFFFFFFFFFFFFFFFFFFFFFFFFFFFFFFFF6C611070995AD10045841B09B761B893"
  by (simp_all add: main_params_def)

lemma main_multiply_1:
  "multiply_point main_params 1 (Some (G main_params)) = Inr (Some (G main_params))"
  by (rule multiply_point_1)

theorem C8_counterexample:
  "generate_signature main_params (\<lambda>i. 0) (q main_params - 1) 1 = None"
proof -
  have "rejected main_params (q main_params - 1) 1 1"
    unfolding rejected_def main_multiply_1 by (simp add: main_G_q)
  then have "\<forall>j. rejected main_params (q main_params - 1) 1 ((\<lambda>i. 0) j + 1)" by simp
  from generate_signature_loop_diverges[OF this]
  show ?thesis by (simp add: generate_signature_def main_G_q)
qed

section \<open>Scalar multiples that are the Identity\<close>

lemma point_mult_v3_loop_stop:
  "k \<le> 0 \<Longrightarrow> point_mult_v3_loop c frames k result temp = Inr result"
  by (subst point_mult_v3_loop.simps) simp

lemma point_mult_v3_reduced: "k mod q c = 0 \<Longrightarrow> point_mult_v3 c frames k P = Inr None"
  by (simp add: point_mult_v3_def point_mult_v3_loop_stop)

text \<open>
  Scalar multiples that are the Identity by the code alone. \<open>multiply_point\<close> of \<open>main.py\<close>
  and \<open>point_mult\<close> of \<open>main_v3.py\<close> return the Identity for the scalar \<open>0\<close> and for the
  point Identity, and \<open>point_mult\<close> of \<open>main_v3.py\<close>, which reduces the scalar modulo \<open>q\<close>
  first, returns the Identity for every point whenever \<open>k mod q = 0\<close>.
\<close>

lemma scalar_multiple_Identity:
  "multiply_point c 0 P = Inr None"
  "multiply_point c k None = Inr None"
  "point_mult_v3 c frames 0 P = Inr None"
  "point_mult_v3 c frames k None = Inr None"
  "k mod q c = 0 \<Longrightarrow> point_mult_v3 c frames k P = Inr None"
proof -
  show "multiply_point c 0 P = Inr None" by (rule multiply_point_0)
  show "multiply_point c k None = Inr None" by (rule multiply_point_Identity)
  show "point_mult_v3 c frames 0 P = Inr None" by (simp add: point_mult_v3_def)
  show "point_mult_v3 c frames k None = Inr None" by (simp add: point_mult_v3_def)
  show "point_mult_v3 c frames k P = Inr None" if "k mod q c = 0"
    using that by (rule point_mult_v3_reduced)
qed

text \<open>
  \<open>multiply_point\<close> of \<open>main.py\<close> does not reduce the scalar and takes any pair as a point:
  for the pair \<open>(0, 0)\<close>, which is not on the curve, and the scalar \<open>q\<close> it returns \<open>(0, 0)\<close>.
\<close>

lemma multiply_point_scalar_not_reduced:
  "q main_params mod q main_params = 0 \<and> (0::int) \<le> q main_params \<and>
   multiply_point main_params (q main_params) (Some (0, 0)) = Inr (Some (0, 0))"
proof -
  have s1: "curve_point_sum main_params None (Some (0, 0)) = Inr (Some (0, 0))"
    by (simp add: curve_point_sum_None)
  have s2: "curve_point_sum main_params (Some (0, 0)) (Some (0, 0)) = Inr None"
    by (simp add: curve_point_sum_def)
  have "multiply_point main_params (q main_params) (Some (0, 0)) = Inr (Some (0, 0))"
    unfolding multiply_point_def
    by (subst multiply_point_loop.simps)
       (simp add: s1 s2 main_G_q multiply_point_loop_temp_None)
  then show ?thesis by (simp add: main_G_q)
qed

section \<open>main_v6.py\<close>

subsection \<open>Verification\<close>

text \<open>
  Claim C10. In \<open>main_v6.py\<close>, \<open>verify_signature\<close> gives the same answer for \<open>(r, s)\<close>
  and \<open>(r, s + n)\<close>, for every digest, public key \<open>Q\<close> and integers \<open>r\<close>, \<open>s\<close>: it uses
  \<open>s\<close> only in \<open>(s * v) % n\<close>. So an accepted \<open>(r, s)\<close> stays accepted as \<open>(r, s + n)\<close>.
\<close>

theorem C10_verify_signature_shift:
  "verify_signature c frames digest Q r (s + q c) = verify_signature c frames digest Q r s"
proof -
  have "((s + q c) * v) mod q c = (s * v) mod q c" for v
    by (simp add: distrib_right)
  then show ?thesis
    unfolding verify_signature_def by (simp only:)
qed

subsection \<open>Point arithmetic\<close>

text \<open>With enough frames for its inverse, \<open>double_point\<close> raises nothing on an affine pair.\<close>

lemma double_point_ok:
  assumes "0 < p c" "2 * p c \<le> 2 ^ n" "2 * n + 1 \<le> frames"
  shows "\<exists>R. double_point c frames (Some P) = Inr R"
proof -
  obtain x y where P: "P = (x, y)" by (cases P)
  have "0 \<le> y mod p c" "y mod p c < p c" using assms(1) by simp_all
  then have "\<bar>2 * (y mod p c)\<bar> < 2 ^ n" using assms(2) by simp
  from inverse_mod_ok [OF this assms(3)] obtain r where
    r: "inverse_mod frames (2 * (y mod p c)) (p c) = Inr r" by blast
  show ?thesis
    by (cases r) (simp_all add: P double_point_def Let_def r)
qed

text \<open>
  The results of \<open>double_point\<close> and \<open>add_points\<close> from the values of their steps, for
  checking a result on concrete numbers one step at a time.
\<close>

lemma double_point_eqI:
  assumes "x0 mod p c = x" "y0 mod p c = y" "y \<noteq> 0"
    and "inverse_mod frames (2 * y) (p c) = Inr (Some w)"
    and "((3 * x * x + a c) * w) mod p c = lam"
    and "(lam * lam - 2 * x) mod p c = x_r"
    and "(lam * (x - x_r) - y) mod p c = y_r"
  shows "double_point c frames (Some (x0, y0)) = Inr (Some (x_r, y_r))"
  using assms by (simp add: double_point_def Let_def)

lemma add_points_eqI:
  assumes "x_p0 mod p c = x_p" "y_p0 mod p c = y_p" "x_q0 mod p c = x_q" "y_q0 mod p c = y_q"
    and "x_p \<noteq> x_q"
    and "inverse_mod frames (x_q - x_p) (p c) = Inr (Some w)"
    and "((y_q - y_p) * w) mod p c = lam"
    and "(lam * lam - x_p - x_q) mod p c = x_r"
    and "(lam * (x_p - x_r) - y_p) mod p c = y_r"
  shows "add_points c frames (Some (x_p0, y_p0)) (Some (x_q0, y_q0)) = Inr (Some (x_r, y_r))"
  using assms by (simp add: add_points_def Let_def)

lemma add_points_NoneI:
  assumes "x_p0 mod p c = x_p" "x_q0 mod p c = x_q" "x_p \<noteq> x_q"
    and "inverse_mod frames (x_q - x_p) (p c) = Inr None"
  shows "add_points c frames (Some (x_p0, y_p0)) (Some (x_q0, y_q0)) = Inr None"
  using assms by (simp add: add_points_def Let_def)

lemma multiply_point_v6_loop_0:
  "multiply_point_v6_loop c frames 0 result addend = Some (Inr result)"
  by (subst multiply_point_v6_loop.simps) simp

lemma add_points_None: "add_points c frames None Q = Inr Q" "add_points c frames P None = Inr P"
  by (cases P; simp add: add_points_def)+

lemma multiply_point_v6_0: "multiply_point_v6 c frames P 0 = Some (Inr None)"
  by (simp add: multiply_point_v6_def multiply_point_v6_loop_0)

lemma multiply_point_v6_1:
  assumes "double_point c frames (Some P) = Inr R"
  shows "multiply_point_v6 c frames (Some P) 1 = Some (Inr (Some P))"
  unfolding multiply_point_v6_def
  by (subst multiply_point_v6_loop.simps)
     (simp add: add_points_None assms multiply_point_v6_loop_0)





subsection \<open>On the constants of main_v6.py\<close>

lemma v6_G_q:
  "G params_v6 = (2, 57896044618658097711785492504343953926418782139537452191302581570759080747168)"
  "q params_v6 = 57896044618658097711785492504343953927082934583725450622380973592137631069619"
  "p params_v6 = 57896044618658097711785492504343953926418782139537452191302581570759080747169"
  "a params_v6 = 7"
  by (simp_all add: params_v6_def)

lemma v6_double_ok:
  assumes "515 \<le> frames"
  shows "\<exists>R. double_point params_v6 frames (Some P) = Inr R"
  by (rule double_point_ok [where n = 257]) (use assms in \<open>simp_all add: v6_G_q\<close>)

lemma v6_multiply_1:
  assumes "515 \<le> frames"
  shows "multiply_point_v6 params_v6 frames (Some P) 1 = Some (Inr (Some P))"
proof -
  obtain R where "double_point params_v6 frames (Some P) = Inr R"
    using v6_double_ok [OF assms] by blast
  then show ?thesis by (rule multiply_point_v6_1)
qed

lemma v6_double_G:
  assumes "515 \<le> frames"
  shows "double_point params_v6 frames (Some (2,
      57896044618658097711785492504343953926418782139537452191302581570759080747168)) =
     Inr (Some (43422033463993573283839119378257965444814086604653089143476936178069310560463,
      36185027886661311069865932815214971204011738837210907619564113481724425467782))"
proof -
  have pP: "p params_v6 = 57896044618658097711785492504343953926418782139537452191302581570759080747169"
    by (simp add: params_v6_def)
  have aA: "a params_v6 = 7"
    by (simp add: params_v6_def)
  have m1: "(2::int) mod 57896044618658097711785492504343953926418782139537452191302581570759080747169 = 2"
    by (rule mod_eqI [where k = "0"]) simp_all
  have r2: "2 mod p params_v6 = 2"
    by (simp only: pP m1)
  have m3: "(57896044618658097711785492504343953926418782139537452191302581570759080747168::int) mod 57896044618658097711785492504343953926418782139537452191302581570759080747169 = 57896044618658097711785492504343953926418782139537452191302581570759080747168"
    by (rule mod_eqI [where k = "0"]) simp_all
  have r4: "57896044618658097711785492504343953926418782139537452191302581570759080747168 mod p params_v6 = 57896044618658097711785492504343953926418782139537452191302581570759080747168"
    by (simp only: pP m3)
  have e5: "(2 * 57896044618658097711785492504343953926418782139537452191302581570759080747168::int) = 115792089237316195423570985008687907852837564279074904382605163141518161494336"
    by simp
  have m6: "(3351951982485649274893506249551461531844806025153475530284231774264571250658914936558225686146810751174407776078494401033089749879221936568241129140020224::int) mod 57896044618658097711785492504343953926418782139537452191302581570759080747169 = 1"
    by (rule mod_eqI [where k = "57896044618658097711785492504343953926418782139537452191302581570759080747167"]) simp_all
  have i7: "inverse_mod frames 115792089237316195423570985008687907852837564279074904382605163141518161494336 57896044618658097711785492504343953926418782139537452191302581570759080747169 = Inr (Some 28948022309329048855892746252171976963209391069768726095651290785379540373584)"
    by (rule inverse_mod_eqI [where n = 257]) (use assms in \<open>simp_all add: m6\<close>)
  have r8: "inverse_mod frames (2 * 57896044618658097711785492504343953926418782139537452191302581570759080747168) (p params_v6) = Inr (Some 28948022309329048855892746252171976963209391069768726095651290785379540373584)"
    by (simp only: e5 pP i7)
  have e9: "((3 * 2 * 2 + 7) * 28948022309329048855892746252171976963209391069768726095651290785379540373584::int) = 550012423877251928261962178791267562300978430325605795817374524922211267098096"
    by simp
  have m10: "(550012423877251928261962178791267562300978430325605795817374524922211267098096::int) mod 57896044618658097711785492504343953926418782139537452191302581570759080747169 = 28948022309329048855892746252171976963209391069768726095651290785379540373575"
    by (rule mod_eqI [where k = "9"]) simp_all
  have r11: "((3 * 2 * 2 + 7) * 28948022309329048855892746252171976963209391069768726095651290785379540373584) mod p params_v6 = 28948022309329048855892746252171976963209391069768726095651290785379540373575"
    by (simp only: e9 pP m10)
  have e12: "(28948022309329048855892746252171976963209391069768726095651290785379540373575 * 28948022309329048855892746252171976963209391069768726095651290785379540373575 - 2 * 2::int) = 837987995621412318723376562387865382961201506288368882571057943566142812664207669737988498657296618361062848434285831219016600400083760907923450558280621"
    by simp
  have m13: "(837987995621412318723376562387865382961201506288368882571057943566142812664207669737988498657296618361062848434285831219016600400083760907923450558280621::int) mod 57896044618658097711785492504343953926418782139537452191302581570759080747169 = 43422033463993573283839119378257965444814086604653089143476936178069310560463"
    by (rule mod_eqI [where k = "14474011154664524427946373126085988481604695534884363047825645392689770186782"]) simp_all
  have r14: "(28948022309329048855892746252171976963209391069768726095651290785379540373575 * 28948022309329048855892746252171976963209391069768726095651290785379540373575 - 2 * 2) mod p params_v6 = 43422033463993573283839119378257965444814086604653089143476936178069310560463"
    by (simp only: e12 pP m13)
  have e15: "(28948022309329048855892746252171976963209391069768726095651290785379540373575 * (2 - 43422033463993573283839119378257965444814086604653089143476936178069310560463) - 57896044618658097711785492504343953926418782139537452191302581570759080747168::int) = - 1256981993432118478085064843581798074441802259432553323856586915349214218999220780849070317395962148539937556336231290631036657572738596085815819644965243"
    by simp
  have m16: "(- 1256981993432118478085064843581798074441802259432553323856586915349214218999220780849070317395962148539937556336231290631036657572738596085815819644965243::int) mod 57896044618658097711785492504343953926418782139537452191302581570759080747169 = 36185027886661311069865932815214971204011738837210907619564113481724425467782"
    by (rule mod_neg_eqI [where k = "21711016731996786641919559689128982722407043302326544571738468089034655280225"]) simp_all
  have r17: "(28948022309329048855892746252171976963209391069768726095651290785379540373575 * (2 - 43422033463993573283839119378257965444814086604653089143476936178069310560463) - 57896044618658097711785492504343953926418782139537452191302581570759080747168) mod p params_v6 = 36185027886661311069865932815214971204011738837210907619564113481724425467782"
    by (simp only: e15 pP m16)
  have r4': "(((3 * 2 * 2 + a params_v6) * 28948022309329048855892746252171976963209391069768726095651290785379540373584)) mod p params_v6 = 28948022309329048855892746252171976963209391069768726095651290785379540373575"
    using r11 by (simp only: aA)
  show ?thesis
    by (rule double_point_eqI [where x = "2" and y = "57896044618658097711785492504343953926418782139537452191302581570759080747168" and w = "28948022309329048855892746252171976963209391069768726095651290785379540373584" and lam = "28948022309329048855892746252171976963209391069768726095651290785379540373575"])
       (rule r2, rule r4, simp, rule r8, rule r4', rule r14, rule r17)
qed


lemma v6_add_G_2G:
  assumes "515 \<le> frames"
  shows "add_points params_v6 frames (Some (2,
      57896044618658097711785492504343953926418782139537452191302581570759080747168))
     (Some (43422033463993573283839119378257965444814086604653089143476936178069310560463,
      36185027886661311069865932815214971204011738837210907619564113481724425467782)) =
     Inr (Some (16845414667549579381593919241285400184421648839197981581324151004448071781998,
      20987729204161947057625508248313719449249115697168034506693363471648376512447))"
proof -
  have pP: "p params_v6 = 57896044618658097711785492504343953926418782139537452191302581570759080747169"
    by (simp add: params_v6_def)
  have m1: "(2::int) mod 57896044618658097711785492504343953926418782139537452191302581570759080747169 = 2"
    by (rule mod_eqI [where k = "0"]) simp_all
  have r2: "2 mod p params_v6 = 2"
    by (simp only: pP m1)
  have m3: "(57896044618658097711785492504343953926418782139537452191302581570759080747168::int) mod 57896044618658097711785492504343953926418782139537452191302581570759080747169 = 57896044618658097711785492504343953926418782139537452191302581570759080747168"
    by (rule mod_eqI [where k = "0"]) simp_all
  have r4: "57896044618658097711785492504343953926418782139537452191302581570759080747168 mod p params_v6 = 57896044618658097711785492504343953926418782139537452191302581570759080747168"
    by (simp only: pP m3)
  have m5: "(43422033463993573283839119378257965444814086604653089143476936178069310560463::int) mod 57896044618658097711785492504343953926418782139537452191302581570759080747169 = 43422033463993573283839119378257965444814086604653089143476936178069310560463"
    by (rule mod_eqI [where k = "0"]) simp_all
  have r6: "43422033463993573283839119378257965444814086604653089143476936178069310560463 mod p params_v6 = 43422033463993573283839119378257965444814086604653089143476936178069310560463"
    by (simp only: pP m5)
  have m7: "(36185027886661311069865932815214971204011738837210907619564113481724425467782::int) mod 57896044618658097711785492504343953926418782139537452191302581570759080747169 = 36185027886661311069865932815214971204011738837210907619564113481724425467782"
    by (rule mod_eqI [where k = "0"]) simp_all
  have r8: "36185027886661311069865932815214971204011738837210907619564113481724425467782 mod p params_v6 = 36185027886661311069865932815214971204011738837210907619564113481724425467782"
    by (simp only: pP m7)
  have e9: "(43422033463993573283839119378257965444814086604653089143476936178069310560463 - 2::int) = 43422033463993573283839119378257965444814086604653089143476936178069310560461"
    by simp
  have m10: "(2208110801518736317585633197033900474983818805887452723213944967022951981150589931776174297136515315987956372581151032088896387825114201635974035412021884::int) mod 57896044618658097711785492504343953926418782139537452191302581570759080747169 = 1"
    by (rule mod_eqI [where k = "38139234140481002053461066278825987453011779332276897289226032963526753489307"]) simp_all
  have i11: "inverse_mod frames 43422033463993573283839119378257965444814086604653089143476936178069310560461 57896044618658097711785492504343953926418782139537452191302581570759080747169 = Inr (Some 50852312187308002737948088371767983270682372443035863052301377284702337985644)"
    by (rule inverse_mod_eqI [where n = 257]) (use assms in \<open>simp_all add: m10\<close>)
  have r12: "inverse_mod frames (43422033463993573283839119378257965444814086604653089143476936178069310560463 - 2) (p params_v6) = Inr (Some 50852312187308002737948088371767983270682372443035863052301377284702337985644)"
    by (simp only: e9 pP i11)
  have e13: "((36185027886661311069865932815214971204011738837210907619564113481724425467782 - 57896044618658097711785492504343953926418782139537452191302581570759080747168) * 50852312187308002737948088371767983270682372443035863052301377284702337985644::int) = - 1104055400759368158792816598516950237491909402943726361606972483511475990532350188245905540256060497364020124418484252516304407564888587701055893277134584"
    by simp
  have m14: "(- 1104055400759368158792816598516950237491909402943726361606972483511475990532350188245905540256060497364020124418484252516304407564888587701055893277134584::int) mod 57896044618658097711785492504343953926418782139537452191302581570759080747169 = 14860557446628858908217937987020035651736571676765547817648882213266054850544"
    by (rule mod_neg_eqI [where k = "19069617070240501026730533139412993726505889666138448644613016481763376743912"]) simp_all
  have r15: "((36185027886661311069865932815214971204011738837210907619564113481724425467782 - 57896044618658097711785492504343953926418782139537452191302581570759080747168) * 50852312187308002737948088371767983270682372443035863052301377284702337985644) mod p params_v6 = 14860557446628858908217937987020035651736571676765547817648882213266054850544"
    by (simp only: e13 pP m14)
  have e16: "(14860557446628858908217937987020035651736571676765547817648882213266054850544 * 14860557446628858908217937987020035651736571676765547817648882213266054850544 - 2 - 43422033463993573283839119378257965444814086604653089143476936178069310560463::int) = 220836167624556430778398481413998741264304518677672536400507120719484086680967056810874689841662286364553356646322394685648841725224058195063920866535471"
    by simp
  have m17: "(220836167624556430778398481413998741264304518677672536400507120719484086680967056810874689841662286364553356646322394685648841725224058195063920866535471::int) mod 57896044618658097711785492504343953926418782139537452191302581570759080747169 = 16845414667549579381593919241285400184421648839197981581324151004448071781998"
    by (rule mod_eqI [where k = "3814356733333520164868995952157961673220217952641602036280796176402117936417"]) simp_all
  have r18: "(14860557446628858908217937987020035651736571676765547817648882213266054850544 * 14860557446628858908217937987020035651736571676765547817648882213266054850544 - 2 - 43422033463993573283839119378257965444814086604653089143476936178069310560463) mod p params_v6 = 16845414667549579381593919241285400184421648839197981581324151004448071781998"
    by (simp only: e16 pP m17)
  have e19: "(14860557446628858908217937987020035651736571676765547817648882213266054850544 * (2 - 16845414667549579381593919241285400184421648839197981581324151004448071781998) - 57896044618658097711785492504343953926418782139537452191302581570759080747168::int) = - 250332252379404905529627259218338430089970275473319884489746566853214598730193888228663044365735097267818874604202822422559974593513839835886688610752992"
    by simp
  have m20: "(- 250332252379404905529627259218338430089970275473319884489746566853214598730193888228663044365735097267818874604202822422559974593513839835886688610752992::int) mod 57896044618658097711785492504343953926418782139537452191302581570759080747169 = 20987729204161947057625508248313719449249115697168034506693363471648376512447"
    by (rule mod_neg_eqI [where k = "4323823052649966221091614285967914290660156156055268269390323625770795872831"]) simp_all
  have r21: "(14860557446628858908217937987020035651736571676765547817648882213266054850544 * (2 - 16845414667549579381593919241285400184421648839197981581324151004448071781998) - 57896044618658097711785492504343953926418782139537452191302581570759080747168) mod p params_v6 = 20987729204161947057625508248313719449249115697168034506693363471648376512447"
    by (simp only: e19 pP m20)
  show ?thesis
    by (rule add_points_eqI [where x_p = "2" and y_p = "57896044618658097711785492504343953926418782139537452191302581570759080747168" and x_q = "43422033463993573283839119378257965444814086604653089143476936178069310560463" and y_q = "36185027886661311069865932815214971204011738837210907619564113481724425467782"
          and w = "50852312187308002737948088371767983270682372443035863052301377284702337985644" and lam = "14860557446628858908217937987020035651736571676765547817648882213266054850544"])
       (rule r2, rule r4, rule r6, rule r8, simp, rule r12, rule r15, rule r18, rule r21)
qed

lemma v6_add_2G_G:
  assumes "515 \<le> frames"
  shows "add_points params_v6 frames (Some (43422033463993573283839119378257965444814086604653089143476936178069310560463,
      36185027886661311069865932815214971204011738837210907619564113481724425467782))
     (Some (2,
      57896044618658097711785492504343953926418782139537452191302581570759080747168)) = Inr None"
proof -
  have pP: "p params_v6 = 57896044618658097711785492504343953926418782139537452191302581570759080747169"
    by (simp add: params_v6_def)
  have m1: "(43422033463993573283839119378257965444814086604653089143476936178069310560463::int) mod 57896044618658097711785492504343953926418782139537452191302581570759080747169 = 43422033463993573283839119378257965444814086604653089143476936178069310560463"
    by (rule mod_eqI [where k = "0"]) simp_all
  have r2: "43422033463993573283839119378257965444814086604653089143476936178069310560463 mod p params_v6 = 43422033463993573283839119378257965444814086604653089143476936178069310560463"
    by (simp only: pP m1)
  have m3: "(2::int) mod 57896044618658097711785492504343953926418782139537452191302581570759080747169 = 2"
    by (rule mod_eqI [where k = "0"]) simp_all
  have r4: "2 mod p params_v6 = 2"
    by (simp only: pP m3)
  have e5: "(2 - 43422033463993573283839119378257965444814086604653089143476936178069310560463::int) = - 43422033463993573283839119378257965444814086604653089143476936178069310560461"
    by simp
  have iv: "inverse_mod frames (- 43422033463993573283839119378257965444814086604653089143476936178069310560461) 57896044618658097711785492504343953926418782139537452191302581570759080747169 = Inr None"
    by (rule inverse_mod_negativeI [where n = 257]) (use assms in simp_all)
  have ri: "inverse_mod frames (2 - 43422033463993573283839119378257965444814086604653089143476936178069310560463) (p params_v6) = Inr None"
    by (simp only: e5 pP iv)
  show ?thesis
    by (rule add_points_NoneI [where x_p = "43422033463993573283839119378257965444814086604653089143476936178069310560463" and x_q = "2"])
       (rule r2, rule r4, simp, rule ri)
qed




subsection \<open>Signatures out of range\<close>

text \<open>
  Claim C2 on \<open>verify_signature\<close> of \<open>main_v6.py\<close>, which has no range check: for the
  digest \<open>n - 2\<close> and the public key \<open>G\<close> it accepts the pair \<open>(2, 0)\<close>, whose second
  component is outside \<open>[1, n)\<close> (here with \<open>990\<close> frames left for \<open>extended_gcd\<close>, and so for
  any number from \<open>515\<close> on). \<open>check_signature\<close> of \<open>main.py\<close> rejects the same pair by its
  range check.
\<close>

theorem C2_v6_accepts_out_of_range:
  "verify_signature params_v6 990 (q params_v6 - 2) (Some (G params_v6)) 2 0 = Some (Inr True) \<and>
   check_signature main_params (q main_params - 2) (2, 0) (Some (G main_params)) = Inr False"
proof -
  have fr: "(515::nat) \<le> 990" by simp
  have e: "(57896044618658097711785492504343953927082934583725450622380973592137631069619::int) - 2 = 57896044618658097711785492504343953927082934583725450622380973592137631069617"
    by simp
  have m1: "(57896044618658097711785492504343953927082934583725450622380973592137631069617::int) mod 57896044618658097711785492504343953927082934583725450622380973592137631069619 = 57896044618658097711785492504343953927082934583725450622380973592137631069617"
    by (rule mod_eqI [where k = "0"]) simp_all
  have m2: "(1675975991242824637446753124775730765960854812119036954291741333245529054692497374290340207783760978742846566995743460540016165712057452196722028565798153::int) mod 57896044618658097711785492504343953927082934583725450622380973592137631069619 = 1"
    by (rule mod_eqI [where k = "28948022309329048855892746252171976963541467291862725311190486796068815534808"]) simp_all
  have m3: "inverse_mod 990 57896044618658097711785492504343953927082934583725450622380973592137631069617 57896044618658097711785492504343953927082934583725450622380973592137631069619 = Inr (Some 28948022309329048855892746252171976963541467291862725311190486796068815534809)"
    by (rule inverse_mod_eqI [where n = 257]) (simp_all add: m2)
  have m4: "(- 57896044618658097711785492504343953927082934583725450622380973592137631069618::int) mod 57896044618658097711785492504343953927082934583725450622380973592137631069619 = 1"
    by (rule mod_neg_eqI [where k = "1"]) simp_all
  have m5: "(2::int) mod 57896044618658097711785492504343953927082934583725450622380973592137631069619 = 2"
    by (rule mod_eqI [where k = "0"]) simp_all
  have one: "multiply_point_v6 params_v6 990
      (Some (2, 57896044618658097711785492504343953926418782139537452191302581570759080747168)) 1 =
      Some (Inr (Some (2, 57896044618658097711785492504343953926418782139537452191302581570759080747168)))"
    by (rule v6_multiply_1 [OF fr])
  have v: "verify_signature params_v6 990 (q params_v6 - 2) (Some (G params_v6)) 2 0 = Some (Inr True)"
    by (simp add: verify_signature_def Let_def v6_G_q(2) e m1 m3 m4 m5
        multiply_point_v6_0 one add_points_None v6_G_q(1))
  have c: "check_signature main_params (q main_params - 2) (2, 0) (Some (G main_params)) = Inr False"
    by (rule check_signature_out_of_range) simp
  from v c show ?thesis by (rule conjI)
qed

subsection \<open>Key generation\<close>




section \<open>Point addition in both orders\<close>

text \<open>
  \<open>curve_point_sum\<close> of \<open>main.py\<close> gives the same result, or raises the same error, in both
  orders, for points with coordinates in \<open>[0, p)\<close> when \<open>p\<close> is prime (every \<open>e\<close> with
  \<open>1 \<le> e < p\<close> is coprime to \<open>p\<close>): \<open>inverse_modulo\<close> reduces its argument modulo \<open>p\<close>.
\<close>

lemma inverse_modulo_neg:
  assumes "1 < m" "gcd v m = 1" "inverse_modulo v m = Inr w"
  shows "\<exists>w'. inverse_modulo (- v) m = Inr w' \<and> (w' + w) mod m = 0"
proof -
  from inverse_modulo_correct [OF assms(1,2)] assms(3)
  have w: "0 \<le> w" "w < m" "(v * w) mod m = 1" by auto
  have "gcd (- v) m = 1" using assms(2) by simp
  from inverse_modulo_correct [OF assms(1) this] obtain w' where
    r: "inverse_modulo (- v) m = Inr w'" and w': "0 \<le> w'" "w' < m" "(- v * w') mod m = 1"
    by blast
  have "(v * (m - w')) mod m = (v * m + (- v * w')) mod m" by (simp add: algebra_simps)
  also have "\<dots> = (- v * w') mod m" by (rule mod_mult_self3)
  finally have e: "(v * (m - w')) mod m = 1" using w'(3) by simp
  have "m - w' = w \<or> w' = 0"
  proof (cases "w' = 0")
    case True
    then show ?thesis by simp
  next
    case False
    with w' have "0 \<le> m - w'" "m - w' < m" by simp_all
    from inverse_unique [OF this w(1,2) e w(3)] show ?thesis by simp
  qed
  moreover have "w' \<noteq> 0" using w'(3) assms(1) by auto
  ultimately have "w' + w = m" by simp
  with r show ?thesis by simp
qed

lemma curve_point_sum_commute:
  assumes p1: "1 < p c" and prime: "\<forall>e\<in>{1..<p c}. gcd e (p c) = 1"
    and P: "P = None \<or> (\<exists>x y. P = Some (x, y) \<and> 0 \<le> x \<and> x < p c \<and> 0 \<le> y \<and> y < p c)"
    and Q: "Q = None \<or> (\<exists>x y. Q = Some (x, y) \<and> 0 \<le> x \<and> x < p c \<and> 0 \<le> y \<and> y < p c)"
  shows "curve_point_sum c P Q = curve_point_sum c Q P"
proof (cases P)
  case None
  then show ?thesis by (cases Q) (simp_all add: curve_point_sum_def)
next
  case SP: (Some xy1)
  show ?thesis
  proof (cases Q)
    case None
    with SP show ?thesis by (simp add: curve_point_sum_def)
  next
    case SQ: (Some xy2)
    obtain x1 y1 where xy1: "xy1 = (x1, y1)" by (cases xy1)
    obtain x2 y2 where xy2: "xy2 = (x2, y2)" by (cases xy2)
    from P SP xy1 have b1: "0 \<le> x1" "x1 < p c" by simp_all
    from Q SQ xy2 have b2: "0 \<le> x2" "x2 < p c" by simp_all
    show ?thesis
    proof (cases "x1 = x2")
      case True
      show ?thesis
      proof (cases "y1 = y2")
        case True
        with \<open>x1 = x2\<close> SP SQ xy1 xy2 show ?thesis by simp
      next
        case False
        with True SP SQ xy1 xy2 show ?thesis
          by (simp add: curve_point_sum_def inverse_modulo_def add.commute)
      qed
    next
      case False
      let ?v = "x2 - x1"
      have v0: "?v \<noteq> 0" using False by simp
      have co: "gcd ?v (p c) = 1"
      proof (cases "0 < ?v")
        case True
        with b1 b2 have "?v \<in> {1..<p c}" by simp
        with prime show ?thesis by blast
      next
        case f: False
        with v0 b1 b2 have "- ?v \<in> {1..<p c}" by simp
        with prime have "gcd (- ?v) (p c) = 1" by blast
        moreover have "gcd (- ?v) (p c) = gcd ?v (p c)" by (rule gcd_neg1_int)
        ultimately show ?thesis by (simp only:)
      qed
      from inverse_modulo_correct [OF p1 co] obtain w1 where
        w1: "inverse_modulo ?v (p c) = Inr w1" "(?v * w1) mod p c = 1" by blast
      from inverse_modulo_neg [OF p1 co w1(1)] obtain w2 where
        w2: "inverse_modulo (x1 - x2) (p c) = Inr w2" "(w2 + w1) mod p c = 0" by auto
      let ?g1 = "(y2 - y1) * w1 mod p c"
      let ?g2 = "(y1 - y2) * w2 mod p c"
      have d1: "p c dvd (w2 + w1)" using w2(2) by (simp add: mod_eq_0_iff_dvd)
      have d2: "p c dvd (?v * w1 - 1)"
      proof -
        have "(?v * w1) mod p c = 1 mod p c" using w1(2) p1 by simp
        then show ?thesis by (simp only: mod_eq_dvd_iff)
      qed
      have "(y2 - y1) * w1 - (y1 - y2) * w2 = (y2 - y1) * (w2 + w1)"
        by (simp add: algebra_simps)
      with d1 have "p c dvd ((y2 - y1) * w1 - (y1 - y2) * w2)" by simp
      then have g: "?g1 = ?g2" by (simp only: mod_eq_dvd_iff)
      have d3: "p c dvd (?g1 - (y2 - y1) * w1)"
      proof -
        have "?g1 mod p c = ((y2 - y1) * w1) mod p c" by simp
        then show ?thesis by (simp only: mod_eq_dvd_iff)
      qed
      let ?xn = "(?g1 * ?g1 - x1 - x2) mod p c"
      have xn: "(?g1 * ?g1 - x2 - x1) mod p c = ?xn" by (simp add: algebra_simps)
      have "(?g1 * (x1 - ?xn) - y1) - (?g1 * (x2 - ?xn) - y2) =
          - ((?g1 - (y2 - y1) * w1) * ?v) - (y2 - y1) * (?v * w1 - 1)"
        by (simp add: algebra_simps)
      moreover have "p c dvd (- ((?g1 - (y2 - y1) * w1) * ?v) - (y2 - y1) * (?v * w1 - 1))"
      proof -
        have "p c dvd (?g1 - (y2 - y1) * w1) * ?v" using d3 by (rule dvd_mult2)
        then have t1: "p c dvd - ((?g1 - (y2 - y1) * w1) * ?v)" by (simp only: dvd_minus_iff)
        have t2: "p c dvd (y2 - y1) * (?v * w1 - 1)" using d2 by (rule dvd_mult)
        from t1 t2 show ?thesis by (rule dvd_diff)
      qed
      ultimately have "p c dvd ((?g1 * (x1 - ?xn) - y1) - (?g1 * (x2 - ?xn) - y2))" by simp
      then have yn: "(?g1 * (x1 - ?xn) - y1) mod p c = (?g1 * (x2 - ?xn) - y2) mod p c"
        by (simp only: mod_eq_dvd_iff)
      have l: "curve_point_sum c P Q = Inr (Some (?xn, (?g1 * (x1 - ?xn) - y1) mod p c))"
        using False SP SQ xy1 xy2 w1(1) by (simp add: curve_point_sum_def Let_def)
      have "curve_point_sum c Q P =
          Inr (Some ((?g2 * ?g2 - x2 - x1) mod p c,
                     (?g2 * (x2 - (?g2 * ?g2 - x2 - x1) mod p c) - y2) mod p c))"
        using False SP SQ xy1 xy2 w2(1) by (simp add: curve_point_sum_def Let_def)
      then have "curve_point_sum c Q P = Inr (Some (?xn, (?g1 * (x2 - ?xn) - y2) mod p c))"
        by (simp only: g [symmetric] xn)
      with l yn show ?thesis by simp
    qed
  qed
qed

text \<open>
  Claim C9 on \<open>add_points\<close> of \<open>main_v6.py\<close>, at the base point \<open>G\<close> and the point
  \<open>2G = double_point(G)\<close>, both with coordinates in \<open>[0, p)\<close>: \<open>add_points(G, 2G)\<close> is an
  affine point, and \<open>add_points(2G, G)\<close> is \<open>None\<close>, because \<open>inverse_mod\<close> is called with the
  negative difference \<open>x_q - x_p\<close> and \<open>extended_gcd\<close> then returns a negative \<open>g\<close> (here with
  \<open>990\<close> frames left for \<open>extended_gcd\<close>, and so for any number from \<open>515\<close> on).
\<close>

theorem C9_v6_add_points_not_commutative:
  "double_point params_v6 990 (Some (G params_v6)) =
     Inr (Some (43422033463993573283839119378257965444814086604653089143476936178069310560463,
      36185027886661311069865932815214971204011738837210907619564113481724425467782)) \<and>
   add_points params_v6 990 (Some (G params_v6))
     (Some (43422033463993573283839119378257965444814086604653089143476936178069310560463,
      36185027886661311069865932815214971204011738837210907619564113481724425467782)) =
     Inr (Some (16845414667549579381593919241285400184421648839197981581324151004448071781998,
      20987729204161947057625508248313719449249115697168034506693363471648376512447)) \<and>
   add_points params_v6 990
     (Some (43422033463993573283839119378257965444814086604653089143476936178069310560463,
      36185027886661311069865932815214971204011738837210907619564113481724425467782))
     (Some (G params_v6)) = Inr None"
proof -
  have fr: "(515::nat) \<le> 990" by simp
  show ?thesis
    using v6_double_G [OF fr] v6_add_G_2G [OF fr] v6_add_2G_G [OF fr] by (simp only: v6_G_q(1))
qed

section \<open>The digest in signing and verification\<close>

lemma generate_signature_digest:
  assumes "(if digest mod q c = 0 then 1 else digest mod q c)
         = (if digest' mod q c = 0 then 1 else digest' mod q c)"
  shows "generate_signature c rnd d digest = generate_signature c rnd d digest'"
  unfolding generate_signature_def Let_def assms ..

lemma check_signature_digest:
  assumes "(if digest mod q c = 0 then 1 else digest mod q c)
         = (if digest' mod q c = 0 then 1 else digest' mod q c)"
  shows "check_signature c digest sig Q = check_signature c digest' sig Q"
  unfolding check_signature_def Let_def assms ..

text \<open>
  Claim C5, as the code has it. In \<open>main.py\<close>, \<open>generate_signature\<close> and
  \<open>check_signature\<close> use the digest only through its value reduced modulo \<open>q\<close> with zero
  replaced by one: the loop of signing runs on that value, two digests with the same
  value give the same results, and a digest that is zero modulo \<open>q\<close> is treated as the
  digest \<open>1\<close>. \<open>sign_file\<close> of \<open>main_v5.py\<close> uses the digest only through its value modulo
  \<open>q\<close> (it has no replacement of zero).
\<close>

theorem C5_digest_reduced_and_remapped:
  "generate_signature c rnd d digest =
     generate_signature_loop c rnd d (if digest mod q c = 0 then 1 else digest mod q c) 0 \<and>
   ((if digest mod q c = 0 then 1 else digest mod q c) =
    (if digest' mod q c = 0 then 1 else digest' mod q c) \<longrightarrow>
      generate_signature c rnd d digest = generate_signature c rnd d digest' \<and>
      check_signature c digest sig Q = check_signature c digest' sig Q) \<and>
   (1 < q c \<and> digest mod q c = 0 \<longrightarrow>
      generate_signature c rnd d digest = generate_signature c rnd d 1 \<and>
      check_signature c digest sig Q = check_signature c 1 sig Q) \<and>
   (digest mod q c = digest' mod q c \<longrightarrow>
      sign_file_v5 c frames rnd d digest = sign_file_v5 c frames rnd d digest')"
proof (intro conjI impI)
  show "generate_signature c rnd d digest =
     generate_signature_loop c rnd d (if digest mod q c = 0 then 1 else digest mod q c) 0"
    by (simp add: generate_signature_def Let_def)
next
  assume h: "(if digest mod q c = 0 then 1 else digest mod q c) =
    (if digest' mod q c = 0 then 1 else digest' mod q c)"
  show "generate_signature c rnd d digest = generate_signature c rnd d digest'"
    by (rule generate_signature_digest [OF h])
  show "check_signature c digest sig Q = check_signature c digest' sig Q"
    by (rule check_signature_digest [OF h])
next
  assume h: "1 < q c \<and> digest mod q c = 0"
  then have e: "(if digest mod q c = 0 then 1 else digest mod q c) =
    (if 1 mod q c = 0 then 1 else 1 mod q c)" by simp
  show "generate_signature c rnd d digest = generate_signature c rnd d 1"
    by (rule generate_signature_digest [OF e])
  show "check_signature c digest sig Q = check_signature c 1 sig Q"
    by (rule check_signature_digest [OF e])
next
  assume "digest mod q c = digest' mod q c"
  then show "sign_file_v5 c frames rnd d digest = sign_file_v5 c frames rnd d digest'"
    by (simp add: sign_file_v5_def)
qed

theorem C5_digest_reduced_and_remapped_witness:
  "(1::int) < q small_params \<and> (14::int) mod q small_params = 0 \<and>
   (15::int) mod q small_params = 8 mod q small_params \<and>
   generate_signature small_params (\<lambda>i. 1) 3 14 = Some (Inr (1, 5)) \<and>
   generate_signature small_params (\<lambda>i. 1) 3 1 = Some (Inr (1, 5)) \<and>
   check_signature small_params 14 (1, 5) (Some (3, 3)) =
     check_signature small_params 1 (1, 5) (Some (3, 3)) \<and>
   sign_file_v5 small_params 990 (\<lambda>i. 1) 3 15 = sign_file_v5 small_params 990 (\<lambda>i. 1) 3 8"
proof -
  have q1: "(1::int) < q small_params" and q2: "(14::int) mod q small_params = 0"
    and q3: "(15::int) mod q small_params = 8 mod q small_params"
    by (simp_all add: small_G_q)
  have sg: "generate_signature small_params (\<lambda>i. 1) 3 1 = Some (Inr (1, 5))"
    unfolding generate_signature_def
    by (subst generate_signature_loop.simps) (simp add: small_G_q small_multiples)
  have a: "generate_signature small_params (\<lambda>i. 1) 3 14 =
      generate_signature small_params (\<lambda>i. 1) 3 1 \<and>
    check_signature small_params 14 (1, 5) (Some (3, 3)) =
      check_signature small_params 1 (1, 5) (Some (3, 3))"
    using C5_digest_reduced_and_remapped
      [of small_params "\<lambda>i. 1" 3 14 1 "(1, 5)" "Some (3, 3)" 990] q1 q2
    by blast
  have b: "sign_file_v5 small_params 990 (\<lambda>i. 1) 3 15 = sign_file_v5 small_params 990 (\<lambda>i. 1) 3 8"
    using C5_digest_reduced_and_remapped
      [of small_params "\<lambda>i. 1" 3 15 8 "(1, 5)" "Some (3, 3)" 990] q3
    by blast
  have g14: "generate_signature small_params (\<lambda>i. 1) 3 14 = Some (Inr (1, 5))"
    using a sg by (simp only:)
  show ?thesis
    using q1 q2 q3 g14 sg a b by blast
qed

subsection \<open>Signing in main_v5.py\<close>

lemma point_add_None: "point_add c frames None Q = Inr Q" "point_add c frames P None = Inr P"
  by (cases P; simp add: point_add_def)+

lemma point_add_double_ok:
  assumes "mod_inverse frames (2 * y) (p c) = Inr w"
  shows "\<exists>R. point_add c frames (Some (x, y)) (Some (x, y)) = Inr R"
  by (simp add: point_add_def Let_def assms)

lemma point_mult_loop_stop:
  "k \<le> 0 \<Longrightarrow> point_mult_loop c frames k result temp = Inr result"
  by (subst point_mult_loop.simps) simp

lemma point_mult_1:
  assumes "1 < q c" and "mod_inverse frames (2 * y) (p c) = Inr w"
  shows "point_mult c frames 1 (Some (x, y)) = Inr (Some (x, y))"
proof -
  obtain R where R: "point_add c frames (Some (x, y)) (Some (x, y)) = Inr R"
    using point_add_double_ok[OF assms(2)] by blast
  have "1 mod q c = 1" using assms(1) by simp
  then show ?thesis
    unfolding point_mult_def
    by (subst point_mult_loop.simps) (simp add: point_add_None R point_mult_loop_stop)
qed

lemma v5_G_q:
  "G params_v5 = (1, 4002117571432935632003698049381913743707966637382337434023398731607750129383)"
  "q params_v5 = 115792089237316195423570985008687907853073762908499243225378155805079068850323"
  "p params_v5 = 115792089237316195423570985008687907853269984665640564039457584007913129639319"
  by (simp_all add: params_v5_def)

lemma v5_multiply_1:
  assumes "515 \<le> frames"
  shows "point_mult params_v5 frames 1 (Some (G params_v5)) = Inr (Some (G params_v5))"
proof -
  have m1: "(824408667010661608587710581147125720699290633599830302104251583492005017145315257257235037316542602386028993863333759812767444506441154891441307798940812::int) mod 115792089237316195423570985008687907853269984665640564039457584007913129639319 = 1"
    by (rule mod_eqI [where k = "7119732206584802601551987711176909513009323022320913426733775779155623956269"]) simp_all
  have m2: "mod_inverse frames 8004235142865871264007396098763827487415933274764674868046797463215500258766 115792089237316195423570985008687907853269984665640564039457584007913129639319 = Inr 102996557734245515116820723227730522078182857296997148950682765861505449467082"
    by (rule mod_inverse_eqI [where n = 257]) (use assms in \<open>simp_all add: m1\<close>)
  have q1: "1 < q params_v5" by (simp add: v5_G_q)
  show ?thesis
    unfolding v5_G_q(1)
    by (rule point_mult_1[OF q1, where w = 102996557734245515116820723227730522078182857296997148950682765861505449467082]) (simp add: v5_G_q m2)
qed

lemma v5_mod_inverse_1: "515 \<le> frames \<Longrightarrow> mod_inverse frames 1 (q params_v5) = Inr 1"
  by (rule mod_inverse_eqI [where n = 257]) (simp_all add: v5_G_q)

lemma v5_sign:
  assumes "0 \<le> h" "h + 1 < q params_v5" "515 \<le> frames"
  shows "sign_file_v5_loop params_v5 frames (\<lambda>i. 0) 1 h 0 = Some (Inr (1, h + 1))"
proof -
  have s: "(h + 1) mod q params_v5 = h + 1" using assms by simp
  have r: "(1::int) mod q params_v5 = 1" by (simp add: v5_G_q)
  have m: "point_mult params_v5 frames (0 + 1) (Some (G params_v5)) =
      Inr (Some (1, snd (G params_v5)))"
    using v5_multiply_1 [OF assms(3)] by (simp add: v5_G_q)
  have i: "mod_inverse frames (0 + 1) (q params_v5) = Inr 1"
    using v5_mod_inverse_1 [OF assms(3)] by simp
  show ?thesis
    using assms(1,2)
    by (subst sign_file_v5_loop.simps) (simp only: Let_def m i r s sum.case option.case prod.case, simp add: s)
qed

text \<open>
  Claim C5 as stated fails on \<open>sign_file\<close> of \<open>main_v5.py\<close>, which reduces the digest
  modulo \<open>q\<close> and uses a zero as it is: with the private key \<open>1\<close> and the nonce \<open>1\<close>, the
  digest \<open>0\<close> is signed as \<open>(1, 1)\<close> and the digest \<open>1\<close> as \<open>(1, 2)\<close> (here with \<open>990\<close>
  frames left for \<open>extended_gcd\<close>, and so for any number from \<open>515\<close> on).
\<close>

theorem C5_counterexample:
  "sign_file_v5 params_v5 990 (\<lambda>i. 0) 1 0 = Some (Inr (1, 1)) \<and>
   sign_file_v5 params_v5 990 (\<lambda>i. 0) 1 1 = Some (Inr (1, 2))"
proof -
  have "(0::int) mod q params_v5 = 0" "(1::int) mod q params_v5 = 1"
    by (simp_all add: v5_G_q)
  moreover have "sign_file_v5_loop params_v5 990 (\<lambda>i. 0) 1 0 0 = Some (Inr (1, 0 + 1))"
    by (rule v5_sign) (simp_all add: v5_G_q)
  moreover have "sign_file_v5_loop params_v5 990 (\<lambda>i. 0) 1 1 0 = Some (Inr (1, 1 + 1))"
    by (rule v5_sign) (simp_all add: v5_G_q)
  ultimately show ?thesis by (simp add: sign_file_v5_def)
qed

section \<open>The base points and the curve equation\<close>

lemma main_G_on_curve:
  "is_on_curve main_params (fst (G main_params)) (snd (G main_params))"
proof -
  have m1: "(4100337934226527997043619575895462817324976677446383363385752990283994474244803381803956912720401726265809420318247796936294179323363533870597202497286544::int) mod 115792089237316195423570985008687907853269984665640564039457584007913129639319 = 164"
    by (rule mod_eqI [where k = "35411209532828054215050712645463179055080291661556785799564380493198355500020"]) simp_all
  have m2: "(115792089237316195423570985008687907853269984665640564039457584007913129639483::int) mod 115792089237316195423570985008687907853269984665640564039457584007913129639319 = 164"
    by (rule mod_eqI [where k = "1"]) simp_all
  show ?thesis
    by (simp add: is_on_curve_def main_params_def Let_def m1 m2)
qed

lemma main1_G_on_curve:
  "is_on_curve params_main1 (fst (G params_main1)) (snd (G params_main1))"
proof -
  have m1: "(1305684092205373533040221077691077339148521389884908815529498583727542773586739078600732747106020956683600164371063053787771205051084393085089418365301881::int) mod 115792089210356248762697446949407573530086143415290314195533631308867097853951 = 38841243268434338802906935583467503580982897597684987572860931569745790234001"
    by (rule mod_eqI [where k = "11276107902616505813297874115423378275166393229135779582683496500509631641880"]) simp_all
  have m2: "(113658155427813365024510503555061841058107074695539734801914243855899581676106121216742031186749037217068373713699401633275460693094202620308271598867055040123401752346577561684789671973397929725392419990583281258891711488349384075::int) mod 115792089210356248762697446949407573530086143415290314195533631308867097853951 = 38841243268434338802906935583467503580982897597684987572860931569745790234001"
    by (rule mod_eqI [where k = "981570988164258562257936101525215858910690391106138407341175333813841188485261487412605372841583104686333854138388118582640433620635866693747671541792774"]) simp_all
  show ?thesis
    by (simp add: is_on_curve_def params_main1_def Let_def m1 m2)
qed

lemma v5_G_off_curve:
  "\<not> is_on_curve params_v5 (fst (G params_v5)) (snd (G params_v5))"
proof -
  have m1: "(16016945055572258641095413062278006825292753691871896371314137855349181267911601508103305949843657739085197323613266048545779971398656245711053239960689::int) mod 115792089237316195423570985008687907853269984665640564039457584007913129639319 = 2118791334134657941801188586670374903722402107972711434913636580942677464363"
    by (rule mod_eqI [where k = "138325037237608581982162539729534836643156987099172763854886482624577494954"]) simp_all
  have m2: "(115792089237316195423570985008687907853269984665640564039457584007913129639483::int) mod 115792089237316195423570985008687907853269984665640564039457584007913129639319 = 164"
    by (rule mod_eqI [where k = "1"]) simp_all
  show ?thesis
    by (simp add: is_on_curve_def params_v5_def Let_def m1 m2)
qed

lemma v2_G_off_curve:
  "\<not> is_on_curve params_v2 (fst (G params_v2)) (snd (G params_v2))"
proof -
  have m1: "(16152152467133846618522930821770543766160528599404972741368800041234856507076559328814212060204333133340890780658865098513852646123772657884734033038400::int) mod 57896044618658097711785492504343953926634992332820282019728792003956564823193 = 21892693583277575231395942845906805800164913653688227380446259579078800330158"
    by (rule mod_eqI [where k = "278985422467504962264045021744044454211025614065504476022348805437974301794"]) simp_all
  have m2: "(43308876546767276905765904595650931995942111794451039587316730224963703718533::int) mod 57896044618658097711785492504343953926634992332820282019728792003956564823193 = 43308876546767276905765904595650931995942111794451039587316730224963703718533"
    by (rule mod_eqI [where k = "0"]) simp_all
  show ?thesis
    by (simp add: is_on_curve_def params_v2_def Let_def m1 m2)
qed

lemma v6_G_off_curve:
  "\<not> is_on_curve params_v6 (fst (G params_v6)) (snd (G params_v6))"
proof -
  have m1: "(3351951982485649274893506249551461531844806025153475530284231774264571250658914936558225686146810751174407776078494401033089749879221936568241129140020224::int) mod 57896044618658097711785492504343953926418782139537452191302581570759080747169 = 1"
    by (rule mod_eqI [where k = "57896044618658097711785492504343953926418782139537452191302581570759080747167"]) simp_all
  have m2: "(43308876546767276905765900574683423135711535271985780914745867236231519206493::int) mod 57896044618658097711785492504343953926418782139537452191302581570759080747169 = 43308876546767276905765900574683423135711535271985780914745867236231519206493"
    by (rule mod_eqI [where k = "0"]) simp_all
  show ?thesis
    by (simp add: is_on_curve_def params_v6_def Let_def m1 m2)
qed

text \<open>
  Claim C4 on the five parameter sets of the source, with the curve equation as
  \<open>is_on_curve\<close> of \<open>main1.py\<close> tests it. The base points of \<open>main.py\<close> and \<open>main1.py\<close>
  satisfy the equation; those of \<open>main_v5.py\<close>, of \<open>main_v2.py\<close> (shared with
  \<open>main_v3.py\<close> and \<open>main_v4.py\<close>) and of \<open>main_v6.py\<close> do not.
\<close>

theorem C4_base_points:
  "is_on_curve main_params (fst (G main_params)) (snd (G main_params)) \<and>
   is_on_curve params_main1 (fst (G params_main1)) (snd (G params_main1)) \<and>
   \<not> is_on_curve params_v5 (fst (G params_v5)) (snd (G params_v5)) \<and>
   \<not> is_on_curve params_v2 (fst (G params_v2)) (snd (G params_v2)) \<and>
   \<not> is_on_curve params_v6 (fst (G params_v6)) (snd (G params_v6))"
  using main_G_on_curve main1_G_on_curve v5_G_off_curve v2_G_off_curve v6_G_off_curve
  by (intro conjI)

end
